(* ===== verification/Go_Prelude.thy ===== *)
theory Go_Prelude
  imports Main "HOL-Library.AList" "HOL-Library.Multiset" "HOL-Library.List_Lexorder"
    "HOL-Library.Char_ord"
begin

text \<open>
  The part of Go that every component of the service uses: 64-bit signed arithmetic, truncating
  remainder, \<open>time.Time\<close> and \<open>time.Duration\<close>, error values and \<open>errors.Is\<close>, contexts, and maps
  with the zero value for a missing key.

  A Go \<open>string\<close> is a sequence of bytes, which is what \<^typ>\<open>string\<close> is in HOL: a list of 8-bit
  characters. The order of \<open>List_Lexorder\<close> over \<open>Char_ord\<close> is Go's byte-wise order \<open>s < t\<close>.
\<close>

named_theorems go_defs \<open>definitions that are unfolded together\<close>
named_theorems gomap_simps \<open>lookups in updated maps\<close>

section \<open>Integers\<close>

text \<open>
  \<open>int\<close> and \<open>int64\<close> are 64-bit two's complement values on the platforms the service is built for.
  They are mathematical integers here, and \<open>wrap64\<close> is applied where an operation can leave the
  range.
\<close>

definition wrap64 :: "int \<Rightarrow> int" where
  "wrap64 x = (x + 2 ^ 63) mod 2 ^ 64 - 2 ^ 63"

abbreviation maxInt64 :: int where
  "maxInt64 \<equiv> 2 ^ 63 - 1"

definition in_int64 :: "int \<Rightarrow> bool" where
  "in_int64 x \<longleftrightarrow> - (2 ^ 63) \<le> x \<and> x < 2 ^ 63"

lemma wrap64_id [simp]: "in_int64 x \<Longrightarrow> wrap64 x = x"
  by (simp add: wrap64_def in_int64_def)

lemma in_int64_wrap64: "in_int64 (wrap64 x)"
  by (simp add: wrap64_def in_int64_def)

lemma in_int64_nonneg [intro]: "0 \<le> x \<Longrightarrow> x \<le> maxInt64 \<Longrightarrow> in_int64 x"
  by (simp add: in_int64_def)

text \<open>Go's \<open>%\<close> and \<open>/\<close> truncate towards zero.\<close>

definition go_rem :: "int \<Rightarrow> int \<Rightarrow> int" where
  "go_rem a b = sgn a * (\<bar>a\<bar> mod \<bar>b\<bar>)"

definition go_quot :: "int \<Rightarrow> int \<Rightarrow> int" where
  "go_quot a b = sgn a * sgn b * (\<bar>a\<bar> div \<bar>b\<bar>)"

lemma go_rem_nonneg [simp]: "0 \<le> a \<Longrightarrow> 0 < b \<Longrightarrow> go_rem a b = a mod b"
  by (cases "a = 0") (simp_all add: go_rem_def)

lemma go_quot_nonneg [simp]: "0 \<le> a \<Longrightarrow> 0 < b \<Longrightarrow> go_quot a b = a div b"
  by (cases "a = 0") (simp_all add: go_quot_def)

lemma go_rem_neg: "a < 0 \<Longrightarrow> 0 < b \<Longrightarrow> go_rem a b = - ((- a) mod b)"
  by (simp add: go_rem_def)

section \<open>Time\<close>

text \<open>
  \<open>time.Duration\<close> is a number of nanoseconds. \<open>time.Time\<close> is the number of nanoseconds since Go's
  zero time, January 1 of year 1 UTC: \<open>IsZero\<close> tests for 0, \<open>Truncate\<close> rounds down to a multiple of
  the duration \<^emph>\<open>since the zero time\<close>, and \<open>Unix\<close> subtracts the 62135596800 seconds between the zero
  time and the Unix epoch. The location of a time only affects its display, so \<open>UTC\<close> is the identity.
\<close>

type_synonym duration = int
type_synonym gotime = int

abbreviation millisecond :: duration where "millisecond \<equiv> 1000000"
abbreviation second :: duration where "second \<equiv> 1000000000"

definition unixToInternal :: int where
  "unixToInternal = 62135596800"

definition time_IsZero :: "gotime \<Rightarrow> bool" where
  "time_IsZero t \<longleftrightarrow> t = 0"

definition time_UTC :: "gotime \<Rightarrow> gotime" where
  "time_UTC t = t"

definition time_Add :: "gotime \<Rightarrow> duration \<Rightarrow> gotime" where
  "time_Add t d = t + d"

definition time_After :: "gotime \<Rightarrow> gotime \<Rightarrow> bool" where
  "time_After t u \<longleftrightarrow> t > u"

definition time_Before :: "gotime \<Rightarrow> gotime \<Rightarrow> bool" where
  "time_Before t u \<longleftrightarrow> t < u"

definition time_Truncate :: "gotime \<Rightarrow> duration \<Rightarrow> gotime" where
  "time_Truncate t d = (if d \<le> 0 then t else t - t mod d)"

definition time_Unix :: "gotime \<Rightarrow> int" where
  "time_Unix t = t div second - unixToInternal"

lemmas time_defs = time_IsZero_def time_UTC_def time_Add_def time_After_def time_Before_def

text \<open>A Unix second as a time, for concrete inputs.\<close>

definition at_unix :: "int \<Rightarrow> gotime" where
  "at_unix s = (s + unixToInternal) * second"

lemma time_Unix_mono: "t \<le> u \<Longrightarrow> time_Unix t \<le> time_Unix u"
  by (simp add: time_Unix_def zdiv_mono1)

lemma time_Truncate_mono: "0 < d \<Longrightarrow> t \<le> u \<Longrightarrow> time_Truncate t d \<le> time_Truncate u d"
  by (simp add: time_Truncate_def minus_mod_eq_div_mult zdiv_mono1)

text \<open>Truncating to whole seconds first does not change the Unix second.\<close>

lemma time_Unix_Truncate_second [simp]: "time_Unix (time_Truncate t second) = time_Unix t"
  by (simp add: time_Unix_def time_Truncate_def minus_mod_eq_div_mult)

lemma time_Unix_add_seconds: "time_Unix (t + k * second) = time_Unix t + k"
  by (simp add: time_Unix_def)

lemma time_Unix_sub_seconds: "time_Unix (t - k * second) = time_Unix t - k"
  using time_Unix_add_seconds [of t "- k"] by simp

lemma time_Unix_at_unix [simp]: "time_Unix (at_unix s) = s"
  by (simp add: time_Unix_def at_unix_def)

section \<open>Errors and contexts\<close>

text \<open>
  An \<open>error\<close> value: the sentinels the program declares or imports, an error of another package by its
  text, and \<open>fmt.Errorf\<close> with \<open>%w\<close>, which wraps the error it names. \<open>errors.Is\<close> follows the chain.
\<close>

datatype go_error =
    ErrEmptyQuery
  | ErrQueryTooLong
  | ErrInvalidTimestamp
  | ErrEventFromFuture
  | ErrDecode
  | ErrValidation
  | Canceled
  | DeadlineExceeded
  | ErrNew string
  | ErrWrap string go_error

fun errors_Is :: "go_error \<Rightarrow> go_error \<Rightarrow> bool" where
  "errors_Is (ErrWrap msg e) target \<longleftrightarrow> ErrWrap msg e = target \<or> errors_Is e target"
| "errors_Is e target \<longleftrightarrow> e = target"

text \<open>
  A context at the moment it is polled: \<open>None\<close> while \<open>ctx.Done()\<close> blocks, \<open>Some (ctx.Err())\<close> once it
  is closed.
\<close>

type_synonym ctx = "go_error option"

text \<open>What the \<open>context\<close> package promises: the error of a finished context is one of two.\<close>

definition ctx_ok :: "ctx \<Rightarrow> bool" where
  "ctx_ok c \<longleftrightarrow> c = None \<or> c = Some Canceled \<or> c = Some DeadlineExceeded"

section \<open>Maps\<close>

text \<open>
  A Go map is an association list with distinct keys. The order of the list is the order in which one
  \<open>range\<close> loop happens to visit the entries; Go leaves that order open, so a result that matters is
  shown to depend on the entries only.
\<close>

type_synonym 'v gomap = "(string \<times> 'v) list"

definition gm_get :: "int gomap \<Rightarrow> string \<Rightarrow> int" where
  "gm_get m k = (case map_of m k of None \<Rightarrow> 0 | Some v \<Rightarrow> v)"

definition gm_put :: "'v gomap \<Rightarrow> string \<Rightarrow> 'v \<Rightarrow> 'v gomap" where
  "gm_put m k v = AList.update k v m"

definition gm_delete :: "'v gomap \<Rightarrow> string \<Rightarrow> 'v gomap" where
  "gm_delete m k = AList.delete k m"

definition gm_has :: "'v gomap \<Rightarrow> string \<Rightarrow> bool" where
  "gm_has m k \<longleftrightarrow> map_of m k \<noteq> None"

definition gm_wf :: "'v gomap \<Rightarrow> bool" where
  "gm_wf m \<longleftrightarrow> distinct (map fst m)"

definition gm_keys :: "'v gomap \<Rightarrow> string set" where
  "gm_keys m = fst ` set m"

lemma gm_get_Nil [simp]: "gm_get [] k = 0"
  by (simp add: gm_get_def)

lemma gm_get_Cons: "gm_get ((k, v) # m) q = (if q = k then v else gm_get m q)"
  by (simp add: gm_get_def)

lemma gm_get_put [gomap_simps]: "gm_get (gm_put m k v) q = (if q = k then v else gm_get m q)"
  by (simp add: gm_get_def gm_put_def update_conv')

lemma gm_get_delete [gomap_simps]:
  "gm_get (gm_delete m k) q = (if q = k then 0 else gm_get m q)"
  by (simp add: gm_get_def gm_delete_def delete_conv')

lemma gm_keys_put [gomap_simps]: "gm_keys (gm_put m k v) = insert k (gm_keys m)"
  by (simp add: gm_keys_def gm_put_def dom_update)

lemma gm_keys_delete [gomap_simps]: "gm_keys (gm_delete m k) = gm_keys m - {k}"
  by (simp add: gm_keys_def gm_delete_def delete_keys flip: set_map)

lemma gm_wf_Nil [simp]: "gm_wf []"
  by (simp add: gm_wf_def)

lemma gm_keys_Nil [simp]: "gm_keys [] = {}"
  by (simp add: gm_keys_def)

lemma gm_keys_Cons: "gm_keys ((k, v) # m) = insert k (gm_keys m)"
  by (simp add: gm_keys_def)

lemma finite_gm_keys [simp]: "finite (gm_keys m)"
  by (simp add: gm_keys_def)

lemma gm_wf_Cons: "gm_wf ((k, v) # m) \<longleftrightarrow> k \<notin> gm_keys m \<and> gm_wf m"
  by (auto simp: gm_wf_def gm_keys_def image_iff)

lemma gm_wf_put [intro, simp]: "gm_wf m \<Longrightarrow> gm_wf (gm_put m k v)"
  by (simp add: gm_wf_def gm_put_def distinct_update)

lemma gm_wf_delete [intro, simp]: "gm_wf m \<Longrightarrow> gm_wf (gm_delete m k)"
  by (simp add: gm_wf_def gm_delete_def distinct_delete)

lemma gm_get_notin: "k \<notin> gm_keys m \<Longrightarrow> gm_get m k = 0"
  by (auto simp: gm_get_def gm_keys_def split: option.splits dest!: map_of_SomeD)
    (metis fst_conv image_eqI)

lemma gm_get_in: "gm_wf m \<Longrightarrow> (k, v) \<in> set m \<Longrightarrow> gm_get m k = v"
  by (simp add: gm_get_def gm_wf_def)

lemma gm_has_keys: "gm_has m k \<longleftrightarrow> k \<in> gm_keys m"
  by (simp add: gm_has_def gm_keys_def map_of_eq_None_iff)

section \<open>Lists\<close>

text \<open>Removing a prefix and a suffix of elements with a property.\<close>

definition trim :: "('a \<Rightarrow> bool) \<Rightarrow> 'a list \<Rightarrow> 'a list" where
  "trim P xs = rev (dropWhile P (rev (dropWhile P xs)))"

lemma trim_Nil [simp]: "trim P [] = []"
  by (simp add: trim_def)

lemma trim_map: "trim P (map f xs) = map f (trim (P \<circ> f) xs)"
  by (simp add: trim_def dropWhile_map rev_map)

lemma trim_sublist: "\<exists>ys zs. xs = ys @ trim P xs @ zs"
proof -
  have "xs = takeWhile P xs @ dropWhile P xs" by simp
  moreover have "dropWhile P xs = trim P xs @ rev (takeWhile P (rev (dropWhile P xs)))"
    unfolding trim_def by (metis rev_append rev_rev_ident takeWhile_dropWhile_id)
  ultimately show ?thesis by metis
qed

lemma set_trim: "set (trim P xs) \<subseteq> set xs"
  unfolding trim_def by (metis set_dropWhileD set_rev subsetI)

lemma trim_id: "xs = [] \<or> \<not> P (hd xs) \<and> \<not> P (last xs) \<Longrightarrow> trim P xs = xs"
proof (elim disjE conjE)
  assume "\<not> P (hd xs)" and l: "\<not> P (last xs)"
  then have "dropWhile P xs = xs" by (cases xs) simp_all
  moreover have "dropWhile P (rev xs) = rev xs"
    using l by (cases xs rule: rev_cases) simp_all
  ultimately show "trim P xs = xs" by (simp add: trim_def)
qed simp

lemma trim_hd: "trim P xs \<noteq> [] \<Longrightarrow> \<not> P (hd (trim P xs))"
proof -
  let ?ys = "dropWhile P xs"
  assume ne: "trim P xs \<noteq> []"
  then have "?ys \<noteq> []" unfolding trim_def by (metis dropWhile.simps(1) rev.simps(1))
  then have h: "\<not> P (hd ?ys)" by (rule hd_dropWhile)
  obtain zs where "?ys = trim P xs @ zs"
    unfolding trim_def by (metis rev_append rev_rev_ident takeWhile_dropWhile_id)
  with ne have "hd ?ys = hd (trim P xs)" by (metis hd_append2)
  with h show ?thesis by simp
qed

lemma trim_last: "trim P xs \<noteq> [] \<Longrightarrow> \<not> P (last (trim P xs))"
  unfolding trim_def by (simp add: last_rev hd_dropWhile)

lemma trim_eq_Nil_iff: "trim P xs = [] \<longleftrightarrow> (\<forall>x\<in>set xs. P x)"
proof
  assume "trim P xs = []"
  then have "\<forall>x\<in>set (dropWhile P xs). P x" by (simp add: trim_def dropWhile_eq_Nil_conv)
  then have "dropWhile P xs = []" by (metis hd_dropWhile hd_in_set)
  then show "\<forall>x\<in>set xs. P x" by (simp add: dropWhile_eq_Nil_conv)
next
  assume "\<forall>x\<in>set xs. P x"
  then have "dropWhile P xs = []" by (simp only: dropWhile_eq_Nil_conv)
  then show "trim P xs = []" by (simp only: trim_def) simp
qed

lemma trim_idem [simp]: "trim P (trim P xs) = trim P xs"
  by (metis trim_id trim_hd trim_last)

section \<open>Running a sequence of operations\<close>

text \<open>
  The methods of the shared components hold a lock for the whole of their effect, so an execution of
  concurrent goroutines is a sequence of operations. \<open>run_ok\<close> says that each operation meets its
  precondition in the state it finds. A property that every such operation keeps holds after every
  sequence; operations that each simulate an abstract one simulate the sequence of the abstract ones.
\<close>

primrec run_ok :: "('s \<Rightarrow> 'op \<Rightarrow> 's) \<Rightarrow> ('s \<Rightarrow> 'op \<Rightarrow> bool) \<Rightarrow> 's \<Rightarrow> 'op list \<Rightarrow> bool" where
  "run_ok step pre s [] \<longleftrightarrow> True"
| "run_ok step pre s (op # ops) \<longleftrightarrow> pre s op \<and> run_ok step pre (step s op) ops"

lemma run_ok_append [simp]:
  "run_ok step pre s (ops @ ops') \<longleftrightarrow>
   run_ok step pre s ops \<and> run_ok step pre (foldl step s ops) ops'"
  by (induction ops arbitrary: s) auto

locale run_invariant =
  fixes step :: "'s \<Rightarrow> 'op \<Rightarrow> 's"
    and inv :: "'s \<Rightarrow> bool"
    and pre :: "'s \<Rightarrow> 'op \<Rightarrow> bool"
  assumes step_inv: "inv s \<Longrightarrow> pre s op \<Longrightarrow> inv (step s op)"
begin

lemma run_inv: "inv s \<Longrightarrow> run_ok step pre s ops \<Longrightarrow> inv (foldl step s ops)"
  by (induction ops arbitrary: s) (auto intro: step_inv)

end

locale run_refinement = run_invariant step inv pre
  for step :: "'s \<Rightarrow> 'op \<Rightarrow> 's" and inv :: "'s \<Rightarrow> bool" and pre :: "'s \<Rightarrow> 'op \<Rightarrow> bool" +
  fixes abstr :: "'s \<Rightarrow> 'a"
    and spec_step :: "'a \<Rightarrow> 'op \<Rightarrow> 'a"
  assumes abstr_step: "inv s \<Longrightarrow> pre s op \<Longrightarrow> abstr (step s op) = spec_step (abstr s) op"
begin

lemma run_refines:
  "inv s \<Longrightarrow> run_ok step pre s ops \<Longrightarrow> abstr (foldl step s ops) = foldl spec_step (abstr s) ops"
proof (induction ops arbitrary: s)
  case (Cons op ops)
  then show ?case using abstr_step step_inv by auto
qed simp

end

end
