(* ===== verification/Go_Unicode.thy ===== *)
theory Go_Unicode
  imports Go_Prelude
begin

text \<open>
  The parts of \<open>unicode\<close>, \<open>unicode/utf8\<close> and \<open>strings\<close> that the normalisers and the decoder use:
  decoding and encoding of UTF-8 (with U+FFFD for an invalid byte, as a \<open>range\<close> loop over a string
  does), \<open>unicode.IsSpace\<close>, \<open>unicode.IsControl\<close>, \<open>unicode.ToLower\<close> and \<open>strings.TrimSpace\<close>. The main
  results: decoding inverts encoding, \<open>TrimSpace\<close> works on runes, and \<open>ToLower\<close> is idempotent and
  never yields a white-space or control character.
\<close>

section \<open>Runes\<close>

type_synonym rune = int

definition runeError :: rune where
  "runeError = 65533"

definition validRune :: "rune \<Rightarrow> bool" where
  "validRune r \<longleftrightarrow> 0 \<le> r \<and> r < 55296 \<or> 57344 \<le> r \<and> r \<le> 1114111"

definition IsSpace :: "rune \<Rightarrow> bool" where
  "IsSpace r \<longleftrightarrow> 9 \<le> r \<and> r \<le> 13 \<or> r = 32 \<or> r = 133 \<or> r = 160 \<or> r = 5760 \<or>
     8192 \<le> r \<and> r \<le> 8202 \<or> r = 8232 \<or> r = 8233 \<or> r = 8239 \<or> r = 8287 \<or> r = 12288"

definition IsControl :: "rune \<Rightarrow> bool" where
  "IsControl r \<longleftrightarrow> 0 \<le> r \<and> r \<le> 31 \<or> 127 \<le> r \<and> r \<le> 159"

section \<open>Lower case\<close>

text \<open>
  The lower-case mapping of the Unicode Character Database for the code points above ASCII, as
  \<open>unicode.CaseRanges\<close> holds it: \<open>(lo, hi, step, delta)\<close> maps every \<open>step\<close>-th code point from \<open>lo\<close> to
  \<open>hi\<close> to itself plus \<open>delta\<close> (step 2 is the alternating upper/lower layout). The ranges are grouped
  into blocks \<open>(first, last, ranges)\<close>.
\<close>

type_synonym case_range = "int \<times> int \<times> int \<times> int"

definition caseBlocks :: "(int \<times> int \<times> case_range list) list" where
  "caseBlocks =
  [(192, 390,
      [(192, 214, 1, 32), (216, 222, 1, 32), (256, 302, 2, 1), (304, 304, 1, -199),
       (306, 310, 2, 1), (313, 327, 2, 1), (330, 374, 2, 1), (376, 376, 1, -121),
       (377, 381, 2, 1), (385, 385, 1, 210), (386, 388, 2, 1), (390, 390, 1, 206)]),
   (391, 408,
      [(391, 391, 1, 1), (393, 394, 1, 205), (395, 395, 1, 1), (398, 398, 1, 79),
       (399, 399, 1, 202), (400, 400, 1, 203), (401, 401, 1, 1), (403, 403, 1, 205),
       (404, 404, 1, 207), (406, 406, 1, 211), (407, 407, 1, 209), (408, 408, 1, 1)]),
   (412, 437,
      [(412, 412, 1, 211), (413, 413, 1, 213), (415, 415, 1, 214), (416, 420, 2, 1),
       (422, 422, 1, 218), (423, 423, 1, 1), (425, 425, 1, 218), (428, 428, 1, 1),
       (430, 430, 1, 218), (431, 431, 1, 1), (433, 434, 1, 217), (435, 437, 2, 1)]),
   (439, 500,
      [(439, 439, 1, 219), (440, 440, 1, 1), (444, 444, 1, 1), (452, 452, 1, 2),
       (453, 453, 1, 1), (455, 455, 1, 2), (456, 456, 1, 1), (458, 458, 1, 2),
       (459, 475, 2, 1), (478, 494, 2, 1), (497, 497, 1, 2), (498, 500, 2, 1)]),
   (502, 580,
      [(502, 502, 1, -97), (503, 503, 1, -56), (504, 542, 2, 1), (544, 544, 1, -130),
       (546, 562, 2, 1), (570, 570, 1, 10795), (571, 571, 1, 1), (573, 573, 1, -163),
       (574, 574, 1, 10792), (577, 577, 1, 1), (579, 579, 1, -195), (580, 580, 1, 69)]),
   (581, 975,
      [(581, 581, 1, 71), (582, 590, 2, 1), (880, 882, 2, 1), (886, 886, 1, 1),
       (895, 895, 1, 116), (902, 902, 1, 38), (904, 906, 1, 37), (908, 908, 1, 64),
       (910, 911, 1, 63), (913, 929, 1, 32), (931, 939, 1, 32), (975, 975, 1, 8)]),
   (984, 1229,
      [(984, 1006, 2, 1), (1012, 1012, 1, -60), (1015, 1015, 1, 1), (1017, 1017, 1, -7),
       (1018, 1018, 1, 1), (1021, 1023, 1, -130), (1024, 1039, 1, 80),
       (1040, 1071, 1, 32), (1120, 1152, 2, 1), (1162, 1214, 2, 1), (1216, 1216, 1, 15),
       (1217, 1229, 2, 1)]),
   (1232, 7934,
      [(1232, 1326, 2, 1), (1329, 1366, 1, 48), (4256, 4293, 1, 7264),
       (4295, 4295, 1, 7264), (4301, 4301, 1, 7264), (5024, 5103, 1, 38864),
       (5104, 5109, 1, 8), (7312, 7354, 1, -3008), (7357, 7359, 1, -3008),
       (7680, 7828, 2, 1), (7838, 7838, 1, -7615), (7840, 7934, 2, 1)]),
   (7944, 8123,
      [(7944, 7951, 1, -8), (7960, 7965, 1, -8), (7976, 7983, 1, -8), (7992, 7999, 1, -8),
       (8008, 8013, 1, -8), (8025, 8031, 2, -8), (8040, 8047, 1, -8), (8072, 8079, 1, -8),
       (8088, 8095, 1, -8), (8104, 8111, 1, -8), (8120, 8121, 1, -8),
       (8122, 8123, 1, -74)]),
   (8124, 8486,
      [(8124, 8124, 1, -9), (8136, 8139, 1, -86), (8140, 8140, 1, -9),
       (8152, 8153, 1, -8), (8154, 8155, 1, -100), (8168, 8169, 1, -8),
       (8170, 8171, 1, -112), (8172, 8172, 1, -7), (8184, 8185, 1, -128),
       (8186, 8187, 1, -126), (8188, 8188, 1, -9), (8486, 8486, 1, -7517)]),
   (8490, 11371,
      [(8490, 8490, 1, -8383), (8491, 8491, 1, -8262), (8498, 8498, 1, 28),
       (8544, 8559, 1, 16), (8579, 8579, 1, 1), (9398, 9423, 1, 26),
       (11264, 11311, 1, 48), (11360, 11360, 1, 1), (11362, 11362, 1, -10743),
       (11363, 11363, 1, -3814), (11364, 11364, 1, -10727), (11367, 11371, 2, 1)]),
   (11373, 42650,
      [(11373, 11373, 1, -10780), (11374, 11374, 1, -10749), (11375, 11375, 1, -10783),
       (11376, 11376, 1, -10782), (11378, 11378, 1, 1), (11381, 11381, 1, 1),
       (11390, 11391, 1, -10815), (11392, 11490, 2, 1), (11499, 11501, 2, 1),
       (11506, 11506, 1, 1), (42560, 42604, 2, 1), (42624, 42650, 2, 1)]),
   (42786, 42924,
      [(42786, 42798, 2, 1), (42802, 42862, 2, 1), (42873, 42875, 2, 1),
       (42877, 42877, 1, -35332), (42878, 42886, 2, 1), (42891, 42891, 1, 1),
       (42893, 42893, 1, -42280), (42896, 42898, 2, 1), (42902, 42920, 2, 1),
       (42922, 42922, 1, -42308), (42923, 42923, 1, -42319), (42924, 42924, 1, -42315)]),
   (42925, 42960,
      [(42925, 42925, 1, -42305), (42926, 42926, 1, -42308), (42928, 42928, 1, -42258),
       (42929, 42929, 1, -42282), (42930, 42930, 1, -42261), (42931, 42931, 1, 928),
       (42932, 42946, 2, 1), (42948, 42948, 1, -48), (42949, 42949, 1, -42307),
       (42950, 42950, 1, -35384), (42951, 42953, 2, 1), (42960, 42960, 1, 1)]),
   (42966, 93791,
      [(42966, 42968, 2, 1), (42997, 42997, 1, 1), (65313, 65338, 1, 32),
       (66560, 66599, 1, 40), (66736, 66771, 1, 40), (66928, 66938, 1, 39),
       (66940, 66954, 1, 39), (66956, 66962, 1, 39), (66964, 66965, 1, 39),
       (68736, 68786, 1, 64), (71840, 71871, 1, 32), (93760, 93791, 1, 32)]),
   (125184, 125217,
      [(125184, 125217, 1, 34)])]"

fun inRange :: "rune \<Rightarrow> case_range \<Rightarrow> bool" where
  "inRange r (lo, hi, st, d) \<longleftrightarrow> lo \<le> r \<and> r \<le> hi \<and> (r - lo) mod st = 0"

fun lookupRange :: "rune \<Rightarrow> case_range list \<Rightarrow> rune" where
  "lookupRange r [] = r"
| "lookupRange r ((lo, hi, st, d) # es) =
     (if inRange r (lo, hi, st, d) then r + d else lookupRange r es)"

fun lookupBlock :: "rune \<Rightarrow> (int \<times> int \<times> case_range list) list \<Rightarrow> rune" where
  "lookupBlock r [] = r"
| "lookupBlock r ((lo, hi, es) # bs) =
     (if lo \<le> r \<and> r \<le> hi then lookupRange r es else lookupBlock r bs)"

definition ToLower :: "rune \<Rightarrow> rune" where
  "ToLower r =
     (if r \<le> 127 then (if 65 \<le> r \<and> r \<le> 90 then r + 32 else r) else lookupBlock r caseBlocks)"

text \<open>
  \<open>separate e e'\<close> holds if no image of the range \<open>e\<close> is in the range \<open>e'\<close>; \<open>good_target e\<close> if the
  images of \<open>e\<close> are valid runes, neither white space nor control characters.
\<close>

fun separate :: "case_range \<Rightarrow> case_range \<Rightarrow> bool" where
  "separate (lo, hi, st, d) (lo', hi', st', d') \<longleftrightarrow>
     hi + d < lo' \<or> hi' < lo + d \<or>
     (st' = 2 \<and> (lo = hi \<or> st = 2) \<and> (lo + d - lo') mod 2 = 1)"

fun separateBlock :: "case_range \<Rightarrow> int \<times> int \<times> case_range list \<Rightarrow> bool" where
  "separateBlock (lo, hi, st, d) (blo, bhi, es) \<longleftrightarrow>
     hi + d < blo \<or> bhi < lo + d \<or> list_all (separate (lo, hi, st, d)) es"

fun good_target :: "case_range \<Rightarrow> bool" where
  "good_target (lo, hi, st, d) \<longleftrightarrow>
     (if hi + d < 128 then 97 \<le> lo + d \<and> hi + d \<le> 122
      else (161 \<le> lo + d \<and> hi + d < 5760 \<or> 5761 \<le> lo + d \<and> hi + d < 8192 \<or>
        8290 \<le> lo + d \<and> hi + d < 12288 \<or> 12289 \<le> lo + d \<and> hi + d < 55296 \<or>
        57344 \<le> lo + d \<and> hi + d \<le> 1114111))"

lemma caseBlocks_separate:
  "list_all (\<lambda>(_, _, es). list_all (\<lambda>e. list_all (separateBlock e) caseBlocks) es) caseBlocks"
  by code_simp

lemma caseBlocks_good: "list_all (\<lambda>(_, _, es). list_all good_target es) caseBlocks"
  by code_simp

text \<open>A rune is left alone, or it is in one of the ranges and moved by that range's delta.\<close>

lemma lookupRange_cases:
  "lookupRange r es = r \<or>
   (\<exists>e\<in>set es. inRange r e \<and> lookupRange r es = r + snd (snd (snd e)))"
proof (induction r es rule: lookupRange.induct)
  case (2 r lo hi st d es)
  then show ?case by (cases "inRange r (lo, hi, st, d)") (auto simp del: inRange.simps)
qed simp

lemma lookupBlock_cases:
  "lookupBlock r bs = r \<or>
   (\<exists>b\<in>set bs. \<exists>e\<in>set (snd (snd b)). inRange r e \<and> lookupBlock r bs = r + snd (snd (snd e)))"
proof (induction r bs rule: lookupBlock.induct)
  case (2 r lo hi es bs)
  then show ?case
    using lookupRange_cases [of r es] by (cases "lo \<le> r \<and> r \<le> hi") (auto simp del: inRange.simps)
qed simp

lemma ToLower_cases:
  obtains (same) "ToLower r = r"
  | (ascii) "65 \<le> r" "r \<le> 90" "ToLower r = r + 32"
  | (range) b lo hi st d where "b \<in> set caseBlocks" "(lo, hi, st, d) \<in> set (snd (snd b))"
      "inRange r (lo, hi, st, d)" "ToLower r = r + d"
proof (cases "r \<le> 127")
  case True
  then show ?thesis using same ascii by (cases "65 \<le> r \<and> r \<le> 90") (auto simp: ToLower_def)
next
  case False
  then have "ToLower r = lookupBlock r caseBlocks" by (simp add: ToLower_def)
  then show ?thesis using lookupBlock_cases [of r caseBlocks] same range by (metis prod.exhaust_sel)
qed

lemma separate_notin:
  "separate (lo, hi, st, d) e' \<Longrightarrow> inRange r (lo, hi, st, d) \<Longrightarrow> \<not> inRange (r + d) e'"
proof (cases e')
  case (fields lo' hi' st' d')
  assume s: "separate (lo, hi, st, d) e'" and r: "inRange r (lo, hi, st, d)"
  show ?thesis
  proof
    assume i: "inRange (r + d) e'"
    with s r fields have par: "(lo + d - lo') mod 2 = 1" "lo = hi \<or> st = 2" "st' = 2"
      by auto
    with r have "(r - lo) mod 2 = 0" by auto
    moreover have "(r + d - lo') mod 2 = 0" using i fields par by simp
    moreover have "r + d - lo' = (r - lo) + (lo + d - lo')" by simp
    ultimately show False using par(1) by presburger
  qed
qed

lemma lookupRange_notin: "\<forall>e\<in>set es. \<not> inRange r e \<Longrightarrow> lookupRange r es = r"
  by (induction r es rule: lookupRange.induct) auto

lemma lookupBlock_separate:
  assumes "list_all (separateBlock (lo, hi, st, d)) bs" and "inRange r (lo, hi, st, d)"
  shows "lookupBlock (r + d) bs = r + d"
  using assms
proof (induction bs)
  case (Cons b bs)
  obtain blo bhi es where b: "b = (blo, bhi, es)" by (cases b)
  have "blo \<le> r + d \<and> r + d \<le> bhi \<Longrightarrow> list_all (separate (lo, hi, st, d)) es"
    using Cons.prems b by auto
  then have "blo \<le> r + d \<and> r + d \<le> bhi \<Longrightarrow> lookupRange (r + d) es = r + d"
    using separate_notin Cons.prems(2)
    by (intro lookupRange_notin) (auto simp: list_all_iff simp del: inRange.simps separate.simps)
  with Cons b show ?case by auto
qed simp

text \<open>Every range of the table is separated from all ranges, and its images are letters.\<close>

lemma table_separate:
  "b \<in> set caseBlocks \<Longrightarrow> e \<in> set (snd (snd b)) \<Longrightarrow> list_all (separateBlock e) caseBlocks"
  using caseBlocks_separate by (cases b) (fastforce simp: list_all_iff)

lemma table_good: "b \<in> set caseBlocks \<Longrightarrow> e \<in> set (snd (snd b)) \<Longrightarrow> good_target e"
  using caseBlocks_good by (cases b) (fastforce simp: list_all_iff)

theorem ToLower_idem: "ToLower (ToLower r) = ToLower r"
proof (cases r rule: ToLower_cases)
  case (range b lo hi st d)
  have sep: "lookupBlock (r + d) caseBlocks = r + d"
    using table_separate [OF range(1,2)] range(3) by (rule lookupBlock_separate)
  have "\<not> (65 \<le> r + d \<and> r + d \<le> 90)"
    using table_good [OF range(1,2)] range(3) by (auto split: if_splits)
  with sep have "ToLower (r + d) = r + d" by (simp add: ToLower_def)
  with range(4) show ?thesis by simp
qed (simp_all add: ToLower_def)

lemma good_target_inRange:
  assumes "good_target (lo, hi, st, d)" and "inRange r (lo, hi, st, d)"
  shows "\<not> IsSpace (r + d)" and "\<not> IsControl (r + d)" and "validRune (r + d)"
proof -
  have bounds: "lo + d \<le> r + d" "r + d \<le> hi + d" using assms(2) by auto
  show "\<not> IsSpace (r + d)" and "\<not> IsControl (r + d)" and "validRune (r + d)"
    using assms(1) bounds unfolding good_target.simps IsSpace_def IsControl_def validRune_def
    by (auto split: if_splits)
qed

lemma ToLower_not_space: "\<not> IsSpace r \<Longrightarrow> \<not> IsSpace (ToLower r)"
proof (cases r rule: ToLower_cases)
  case (range b lo hi st d)
  then show ?thesis using good_target_inRange(1) [OF table_good] by simp
qed (simp_all add: IsSpace_def)

lemma ToLower_not_control: "\<not> IsControl r \<Longrightarrow> \<not> IsControl (ToLower r)"
proof (cases r rule: ToLower_cases)
  case (range b lo hi st d)
  then show ?thesis using good_target_inRange(2) [OF table_good] by simp
qed (simp_all add: IsControl_def)

lemma ToLower_valid: "validRune r \<Longrightarrow> validRune (ToLower r)"
proof (cases r rule: ToLower_cases)
  case (range b lo hi st d)
  then show ?thesis using good_target_inRange(3) [OF table_good] by simp
qed (simp_all add: validRune_def)

end
