(* ===== verification/Go_Strings.thy ===== *)
theory Go_Strings
  imports Go_Unicode
begin

text \<open>
  Strings as bytes and as runes: \<open>utf8.DecodeRuneInString\<close>, \<open>utf8.EncodeRune\<close>, the sequence of runes
  a \<open>range\<close> loop visits, \<open>utf8.RuneCountInString\<close> and \<open>strings.TrimSpace\<close>.
\<close>

section \<open>Decoding\<close>

abbreviation byte :: "char \<Rightarrow> int" where
  "byte c \<equiv> of_char c"

lemma byte_bounds [simp]: "0 \<le> byte c" "byte c < 256"
  using of_char_mod_256 [of c, where 'a = int]
  by (metis pos_mod_sign zero_less_numeral, metis pos_mod_bound zero_less_numeral)

definition cont :: "char \<Rightarrow> bool" where
  "cont c \<longleftrightarrow> 128 \<le> byte c \<and> byte c \<le> 191"

text \<open>The accepted second bytes of the lead bytes E0, ED, F0 and F4 exclude overlong forms,
  surrogates and values above U+10FFFF.\<close>

definition accept2 :: "int \<Rightarrow> char \<Rightarrow> bool" where
  "accept2 p c \<longleftrightarrow>
     (if p = 224 then 160 else if p = 240 then 144 else 128) \<le> byte c \<and>
     byte c \<le> (if p = 237 then 159 else if p = 244 then 143 else 191)"

fun decode2 :: "int \<Rightarrow> string \<Rightarrow> rune \<times> nat" where
  "decode2 p (c1 # _) =
     (if cont c1 then ((p - 192) * 64 + (byte c1 - 128), 2) else (runeError, 1))"
| "decode2 p _ = (runeError, 1)"

fun decode3 :: "int \<Rightarrow> string \<Rightarrow> rune \<times> nat" where
  "decode3 p (c1 # c2 # _) =
     (if accept2 p c1 \<and> cont c2
      then ((p - 224) * 4096 + (byte c1 - 128) * 64 + (byte c2 - 128), 3) else (runeError, 1))"
| "decode3 p _ = (runeError, 1)"

fun decode4 :: "int \<Rightarrow> string \<Rightarrow> rune \<times> nat" where
  "decode4 p (c1 # c2 # c3 # _) =
     (if accept2 p c1 \<and> cont c2 \<and> cont c3
      then ((p - 240) * 262144 + (byte c1 - 128) * 4096 + (byte c2 - 128) * 64 + (byte c3 - 128), 4)
      else (runeError, 1))"
| "decode4 p _ = (runeError, 1)"

fun decodeRune :: "string \<Rightarrow> rune \<times> nat" where
  "decodeRune [] = (runeError, 0)"
| "decodeRune (c # cs) =
     (if byte c < 128 then (byte c, 1)
      else if 194 \<le> byte c \<and> byte c \<le> 223 then decode2 (byte c) cs
      else if 224 \<le> byte c \<and> byte c \<le> 239 then decode3 (byte c) cs
      else if 240 \<le> byte c \<and> byte c \<le> 244 then decode4 (byte c) cs
      else (runeError, 1))"

lemma decode2_width: "1 \<le> snd (decode2 p cs) \<and> snd (decode2 p cs) \<le> Suc (length cs)"
  by (cases "(p, cs)" rule: decode2.cases) auto

lemma decode3_width: "1 \<le> snd (decode3 p cs) \<and> snd (decode3 p cs) \<le> Suc (length cs)"
  by (cases "(p, cs)" rule: decode3.cases) auto

lemma decode4_width: "1 \<le> snd (decode4 p cs) \<and> snd (decode4 p cs) \<le> Suc (length cs)"
  by (cases "(p, cs)" rule: decode4.cases) auto

lemma decodeRune_width:
  "s \<noteq> [] \<Longrightarrow> 1 \<le> snd (decodeRune s) \<and> snd (decodeRune s) \<le> length s"
  using decode2_width decode3_width decode4_width by (cases s) auto

text \<open>The runes of a string, each with the bytes it was decoded from.\<close>

function segments :: "string \<Rightarrow> (rune \<times> string) list" where
  "segments [] = []"
| "segments (c # cs) =
     (let (r, n) = decodeRune (c # cs)
      in (r, take n (c # cs)) # segments (drop n (c # cs)))"
  by pat_completeness auto
termination
proof (relation "measure length")
  fix c cs x r n
  assume "x = decodeRune (c # cs)" and "(r, n) = x"
  then have "1 \<le> n" using decodeRune_width [of "c # cs"] by (metis list.distinct(1) snd_conv)
  then show "(drop n (c # cs), c # cs) \<in> measure length" by simp
qed simp

declare segments.simps(2) [simp del]

definition runes :: "string \<Rightarrow> rune list" where
  "runes s = map fst (segments s)"

definition RuneCountInString :: "string \<Rightarrow> int" where
  "RuneCountInString s = int (length (runes s))"

definition TrimSpace :: "string \<Rightarrow> string" where
  "TrimSpace s = concat (map snd (trim (\<lambda>(r, b). IsSpace r) (segments s)))"

section \<open>Encoding\<close>

definition chr :: "int \<Rightarrow> char" where
  "chr n = char_of n"

lemma byte_chr [simp]: "0 \<le> n \<Longrightarrow> n < 256 \<Longrightarrow> byte (chr n) = n"
  by (simp add: chr_def)

definition encodeRune :: "rune \<Rightarrow> string" where
  "encodeRune r0 =
     (let r = (if validRune r0 then r0 else runeError)
      in if r < 128 then [chr r]
         else if r < 2048 then [chr (192 + r div 64), chr (128 + r mod 64)]
         else if r < 65536 then
           [chr (224 + r div 4096), chr (128 + r div 64 mod 64), chr (128 + r mod 64)]
         else
           [chr (240 + r div 262144), chr (128 + r div 4096 mod 64), chr (128 + r div 64 mod 64),
            chr (128 + r mod 64)])"

definition encode :: "rune list \<Rightarrow> string" where
  "encode rs = concat (map encodeRune rs)"

lemma encode_simps [simp]:
  "encode [] = []"
  "encode (r # rs) = encodeRune r @ encode rs"
  "encode (xs @ ys) = encode xs @ encode ys"
  by (simp_all add: encode_def)

lemma encodeRune_nonempty [simp]: "encodeRune r \<noteq> []"
  by (simp add: encodeRune_def Let_def)

lemma encode_eq_Nil [simp]: "encode rs = [] \<longleftrightarrow> rs = []"
  by (cases rs) auto

lemma base64_digits:
  fixes r :: int
  shows "r div 4096 * 4096 + r div 64 mod 64 * 64 + r mod 64 = r"
    and "r div 262144 * 262144 + r div 4096 mod 64 * 4096 + r div 64 mod 64 * 64 + r mod 64 = r"
proof -
  have "r = r div 64 * 64 + r mod 64" by simp
  moreover have "r div 64 = r div 4096 * 64 + r div 64 mod 64"
    using div_mult_mod_eq [of "r div 64" 64] by (simp add: zdiv_zmult2_eq [of 64 r 64, simplified])
  moreover have "r div 4096 = r div 262144 * 64 + r div 4096 mod 64"
    using div_mult_mod_eq [of "r div 4096" 64]
    by (simp add: zdiv_zmult2_eq [of 64 r 4096, simplified])
  ultimately show "r div 4096 * 4096 + r div 64 mod 64 * 64 + r mod 64 = r"
    and "r div 262144 * 262144 + r div 4096 mod 64 * 4096 + r div 64 mod 64 * 64 + r mod 64 = r"
    by linarith+
qed

lemma mod64_window: "64 * k \<le> x \<Longrightarrow> x < 64 * k + 64 \<Longrightarrow> x mod 64 = x - 64 * (k :: int)"
  using mod_mult_self2 [of "x - 64 * k" 64 k] by simp

lemma decodeRune_three:
  assumes "0 \<le> a" "a < 16" "0 \<le> b" "b < 64" "0 \<le> c" "c < 64"
    and "accept2 (224 + a) (chr (128 + b))"
  shows "decodeRune (chr (224 + a) # chr (128 + b) # chr (128 + c) # s) = (a * 4096 + b * 64 + c, 3)"
  using assms by (simp add: cont_def)

lemma decodeRune_four:
  assumes "0 \<le> a" "a < 5" "0 \<le> b" "b < 64" "0 \<le> c" "c < 64" "0 \<le> d" "d < 64"
    and "accept2 (240 + a) (chr (128 + b))"
  shows "decodeRune (chr (240 + a) # chr (128 + b) # chr (128 + c) # chr (128 + d) # s) =
    (a * 262144 + b * 4096 + c * 64 + d, 4)"
  using assms by (simp add: cont_def)

lemma decode_encode:
  assumes "validRune r"
  shows "decodeRune (encodeRune r @ s) = (r, length (encodeRune r))"
proof -
  have r: "0 \<le> r" "r \<le> 1114111" and ns: "\<not> (55296 \<le> r \<and> r < 57344)"
    using assms by (auto simp: validRune_def)
  consider (one) "r < 128" | (two) "128 \<le> r" "r < 2048" | (three) "2048 \<le> r" "r < 65536"
    | (four) "65536 \<le> r" by linarith
  then show ?thesis
  proof cases
    case one
    then show ?thesis using r assms by (simp add: encodeRune_def)
  next
    case two
    then have b: "2 \<le> r div 64" "r div 64 < 32" by auto
    have "(192 + r div 64 - 192) * 64 + (128 + r mod 64 - 128) = r" by simp
    then show ?thesis using two r assms b by (simp add: encodeRune_def cont_def)
  next
    case three
    then have b: "0 \<le> r div 4096" "r div 4096 < 16" by auto
    have lo: "32 \<le> r div 64 mod 64" if "r div 4096 = 0"
    proof -
      have "32 \<le> r div 64" "r div 64 < 64" using that three r by auto
      then show ?thesis by simp
    qed
    have hi: "r div 64 mod 64 \<le> 31" if "r div 4096 = 13"
    proof -
      have "832 \<le> r div 64" using that by linarith
      moreover have "r div 64 \<le> 863" using that ns by linarith
      ultimately show ?thesis using mod64_window [of 13 "r div 64"] by simp
    qed
    have acc: "accept2 (224 + r div 4096) (chr (128 + r div 64 mod 64))"
      using lo hi b unfolding accept2_def by auto
    have enc: "encodeRune r =
        [chr (224 + r div 4096), chr (128 + r div 64 mod 64), chr (128 + r mod 64)]"
      using three assms by (simp only: encodeRune_def Let_def) simp
    have "decodeRune (encodeRune r @ s) = (r div 4096 * 4096 + r div 64 mod 64 * 64 + r mod 64, 3)"
      unfolding enc append.simps by (rule decodeRune_three [OF b _ _ _ _ acc]) simp_all
    then show ?thesis unfolding base64_digits(1) by (simp only: enc list.size) simp
  next
    case four
    then have b: "0 \<le> r div 262144" "r div 262144 < 5" using r by auto
    have lo: "16 \<le> r div 4096 mod 64" if "r div 262144 = 0"
    proof -
      have "16 \<le> r div 4096" using four by linarith
      moreover have "r div 4096 < 64" using that by linarith
      ultimately show ?thesis by simp
    qed
    have hi: "r div 4096 mod 64 \<le> 15" if "r div 262144 = 4"
    proof -
      have "256 \<le> r div 4096" using that by linarith
      moreover have "r div 4096 \<le> 271" using r by linarith
      ultimately show ?thesis using mod64_window [of 4 "r div 4096"] by simp
    qed
    have acc: "accept2 (240 + r div 262144) (chr (128 + r div 4096 mod 64))"
      using lo hi b unfolding accept2_def by auto
    have enc: "encodeRune r =
        [chr (240 + r div 262144), chr (128 + r div 4096 mod 64), chr (128 + r div 64 mod 64),
         chr (128 + r mod 64)]"
      using four assms by (simp only: encodeRune_def Let_def) simp
    have "decodeRune (encodeRune r @ s) =
        (r div 262144 * 262144 + r div 4096 mod 64 * 4096 + r div 64 mod 64 * 64 + r mod 64, 4)"
      unfolding enc append.simps by (rule decodeRune_four [OF b _ _ _ _ _ _ acc]) simp_all
    then show ?thesis unfolding base64_digits(2) by (simp only: enc list.size) simp
  qed
qed

lemma segments_encode_Cons:
  "validRune r \<Longrightarrow> segments (encodeRune r @ s) = (r, encodeRune r) # segments s"
  using decode_encode [of r s] by (cases "encodeRune r") (simp_all add: segments.simps)

lemma segments_encode:
  "\<forall>r\<in>set rs. validRune r \<Longrightarrow> segments (encode rs) = map (\<lambda>r. (r, encodeRune r)) rs"
  by (induction rs) (simp_all add: segments_encode_Cons)

text \<open>Decoding inverts encoding.\<close>

theorem runes_encode: "\<forall>r\<in>set rs. validRune r \<Longrightarrow> runes (encode rs) = rs"
  by (simp add: runes_def segments_encode comp_def)

lemma encode_inject:
  assumes "\<forall>r\<in>set rs. validRune r" and "\<forall>r\<in>set rs'. validRune r"
  shows "encode rs = encode rs' \<longleftrightarrow> rs = rs'"
  using assms runes_encode by metis

section \<open>Trimming\<close>

lemma decode2_valid: "194 \<le> p \<and> p \<le> 223 \<Longrightarrow> validRune (fst (decode2 p cs))"
  by (cases "(p, cs)" rule: decode2.cases) (auto simp: validRune_def runeError_def cont_def)

lemma decode3_valid: "224 \<le> p \<and> p \<le> 239 \<Longrightarrow> validRune (fst (decode3 p cs))"
  by (cases "(p, cs)" rule: decode3.cases)
    (auto simp: validRune_def runeError_def cont_def accept2_def split: if_splits)

lemma decode4_valid: "240 \<le> p \<and> p \<le> 244 \<Longrightarrow> validRune (fst (decode4 p cs))"
  by (cases "(p, cs)" rule: decode4.cases)
    (auto simp: validRune_def runeError_def cont_def accept2_def split: if_splits)

lemma decodeRune_valid: "validRune (fst (decodeRune s))"
proof (cases s)
  case (Cons c cs)
  then show ?thesis using decode2_valid decode3_valid decode4_valid
    by (auto simp: validRune_def runeError_def)
qed (simp add: validRune_def runeError_def)

lemma runes_valid: "r \<in> set (runes s) \<Longrightarrow> validRune r"
proof (induction s rule: segments.induct)
  case (2 c cs)
  obtain q n where q: "decodeRune (c # cs) = (q, n)" by (cases "decodeRune (c # cs)")
  then have "validRune q" using decodeRune_valid [of "c # cs"] by simp
  with 2 q show ?case by (auto simp: runes_def segments.simps)
qed (simp add: runes_def)

text \<open>A rune decoded from the bytes of a prefix is decoded from the prefix alone.\<close>

lemma decodeRune_prefix:
  "s \<noteq> [] \<Longrightarrow> decodeRune (s @ t) = (r, n) \<Longrightarrow> n \<le> length s \<Longrightarrow> decodeRune s = (r, n)"
proof (cases s)
  case (Cons c cs)
  assume d: "decodeRune (s @ t) = (r, n)" and n: "n \<le> length s"
  have two: "decode2 p (cs @ t) = (r, n) \<Longrightarrow> decode2 p cs = (r, n)" for p
    using n Cons by (cases cs) (auto split: if_splits elim: decode2.elims)
  have three: "decode3 p (cs @ t) = (r, n) \<Longrightarrow> decode3 p cs = (r, n)" for p
    using n Cons by (cases "(p, cs)" rule: decode3.cases) (auto split: if_splits elim!: decode3.elims)
  have four: "decode4 p (cs @ t) = (r, n) \<Longrightarrow> decode4 p cs = (r, n)" for p
    using n Cons by (cases "(p, cs)" rule: decode4.cases) (auto split: if_splits elim!: decode4.elims)
  show ?thesis using d Cons two three four by (auto split: if_splits)
qed simp

lemma segments_nonempty:
  assumes "s \<noteq> []" and "decodeRune s = (r, n)"
  shows "segments s = (r, take n s) # segments (drop n s)"
  using assms by (cases s) (simp_all add: segments.simps)

lemma concat_segments: "concat (map snd (segments s)) = s"
proof (induction s rule: segments.induct)
  case (2 c cs)
  obtain r n where "decodeRune (c # cs) = (r, n)" by (cases "decodeRune (c # cs)")
  with 2 show ?case by (simp add: segments_nonempty)
qed simp

lemma segments_drop: "segments s = xs @ ys \<Longrightarrow> segments (concat (map snd ys)) = ys"
proof (induction xs arbitrary: s)
  case Nil
  then show ?case using concat_segments [of s] by simp
next
  case (Cons x xs)
  then have "s \<noteq> []" by auto
  then obtain r n where "segments s = (r, take n s) # segments (drop n s)"
    by (metis segments_nonempty surj_pair)
  with Cons.prems have "segments (drop n s) = xs @ ys" by simp
  then show ?case by (rule Cons.IH)
qed

lemma segments_take: "segments s = ys @ zs \<Longrightarrow> segments (concat (map snd ys)) = ys"
proof (induction ys arbitrary: s)
  case (Cons y ys)
  then have ne: "s \<noteq> []" by auto
  obtain r n where d: "decodeRune s = (r, n)" by (cases "decodeRune s")
  have seg: "segments s = (r, take n s) # segments (drop n s)" using ne d by (rule segments_nonempty)
  with Cons.prems have y: "y = (r, take n s)" and rest: "segments (drop n s) = ys @ zs" by auto
  have n: "1 \<le> n" "n \<le> length s" using decodeRune_width [OF ne] d by auto
  let ?u = "take n s @ concat (map snd ys)"
  have dr: "concat (map snd ys) @ concat (map snd zs) = drop n s"
    using concat_segments [of "drop n s"] rest by simp
  have s: "s = ?u @ concat (map snd zs)"
    unfolding append.assoc dr by simp
  have "decodeRune (?u @ concat (map snd zs)) = (r, n)" using d by (subst s [symmetric])
  moreover have len: "length (take n s) = n" using n by simp
  moreover have ne': "?u \<noteq> []" using n len by auto
  ultimately have "decodeRune ?u = (r, n)" by (intro decodeRune_prefix [where s = ?u]) simp_all
  then have "segments ?u = (r, take n ?u) # segments (drop n ?u)" using ne' by (intro segments_nonempty)
  then show ?case using y len Cons.IH [OF rest] by simp
qed simp

lemma segments_TrimSpace:
  "segments (TrimSpace s) = trim (\<lambda>(r, b). IsSpace r) (segments s)"
proof -
  obtain xs zs where "segments s = xs @ trim (\<lambda>(r, b). IsSpace r) (segments s) @ zs"
    using trim_sublist by blast
  then show ?thesis
    unfolding TrimSpace_def by (metis segments_drop segments_take)
qed

text \<open>\<open>TrimSpace\<close> removes leading and trailing white-space runes.\<close>

theorem runes_TrimSpace: "runes (TrimSpace s) = trim IsSpace (runes s)"
proof -
  have "IsSpace \<circ> fst = (\<lambda>(r, b :: string). IsSpace r)" by auto
  then show ?thesis unfolding runes_def segments_TrimSpace trim_map by simp
qed

lemma runes_Nil [simp]: "runes [] = []"
  by (simp add: runes_def)

lemma segments_eq_Nil [simp]: "segments s = [] \<longleftrightarrow> s = []"
  by (cases s) (auto simp: segments.simps split: prod.splits)

lemma runes_eq_Nil [simp]: "runes s = [] \<longleftrightarrow> s = []"
  by (simp add: runes_def)

lemma TrimSpace_eq_Nil: "TrimSpace s = [] \<longleftrightarrow> (\<forall>r\<in>set (runes s). IsSpace r)"
  by (metis runes_TrimSpace runes_eq_Nil trim_eq_Nil_iff)

lemma TrimSpace_idem: "TrimSpace (TrimSpace s) = TrimSpace s"
  by (simp add: TrimSpace_def [of "TrimSpace s"] segments_TrimSpace) (simp add: TrimSpace_def)

lemma TrimSpace_encode:
  assumes "\<forall>r\<in>set rs. validRune r"
  shows "TrimSpace (encode rs) = encode (trim IsSpace rs)"
proof -
  have "(\<lambda>(r, b). IsSpace r) \<circ> (\<lambda>r. (r, encodeRune r)) = IsSpace" by auto
  then show ?thesis
    using assms by (simp add: TrimSpace_def segments_encode trim_map)
      (simp add: encode_def comp_def)
qed

end
