(* ===== verification/Normalizer.thy ===== *)
theory Normalizer
  imports Go_Strings
begin

text \<open>
  \<open>internal/aggregator/normalizer.go\<close>: \<open>NormalizeQuery\<close> with its loop over the runes of the query, its
  string builder, the flag \<open>previousWasSpace\<close>, the counter \<open>writtenRunes\<close> and both length checks. The
  reference is \<open>canonical\<close>: the white-space separated words of the query, control characters removed,
  lower-cased, empty words dropped, joined by single spaces.
\<close>

section \<open>The code\<close>

definition defaultMaxQueryRunes :: int where
  "defaultMaxQueryRunes = 256"

fun normalizeLoop :: "int \<Rightarrow> rune list \<Rightarrow> string \<Rightarrow> bool \<Rightarrow> int \<Rightarrow> go_error + string" where
  "normalizeLoop maxRunes [] builder previousWasSpace writtenRunes = Inr builder"
| "normalizeLoop maxRunes (r # rs) builder previousWasSpace writtenRunes =
     (if IsSpace r then
        (if 0 < length builder \<and> \<not> previousWasSpace
         then normalizeLoop maxRunes rs (builder @ encodeRune 32) True (writtenRunes + 1)
         else normalizeLoop maxRunes rs builder previousWasSpace writtenRunes)
      else if IsControl r then normalizeLoop maxRunes rs builder previousWasSpace writtenRunes
      else if writtenRunes + 1 > maxRunes then Inl ErrQueryTooLong
      else normalizeLoop maxRunes rs (builder @ encodeRune (ToLower r)) False (writtenRunes + 1))"

definition effectiveMaxRunes :: "int \<Rightarrow> int" where
  "effectiveMaxRunes maxRunes = (if maxRunes \<le> 0 then defaultMaxQueryRunes else maxRunes)"

definition NormalizeQuery :: "string \<Rightarrow> int \<Rightarrow> go_error + string" where
  "NormalizeQuery query0 maxRunes0 =
     (let maxRunes = effectiveMaxRunes maxRunes0;
          query = TrimSpace query0
      in if query = [] then Inl ErrEmptyQuery
         else case normalizeLoop maxRunes (runes query) [] False 0 of
                Inl e \<Rightarrow> Inl e
              | Inr builder \<Rightarrow>
                  (let normalized = TrimSpace builder
                   in if normalized = [] then Inl ErrEmptyQuery
                      else if RuneCountInString normalized > maxRunes then Inl ErrQueryTooLong
                      else Inr normalized))"

section \<open>The reference\<close>

fun split_words :: "rune list \<Rightarrow> rune list list" where
  "split_words [] = [[]]"
| "split_words (r # rs) =
     (if IsSpace r then [] # split_words rs
      else (r # hd (split_words rs)) # tl (split_words rs))"

definition clean :: "rune list \<Rightarrow> rune list" where
  "clean w = map ToLower (filter (\<lambda>r. \<not> IsControl r) w)"

fun join_words :: "rune list list \<Rightarrow> rune list" where
  "join_words [] = []"
| "join_words [w] = w"
| "join_words (w # ws) = w @ 32 # join_words ws"

definition canonical :: "rune list \<Rightarrow> rune list" where
  "canonical rs = join_words (filter (\<lambda>w. w \<noteq> []) (map clean (split_words rs)))"

text \<open>
  What a normalised query looks like: no control character, no white space but the plain space, no
  upper-case letter, no space at either end and no two spaces in a row.
\<close>

fun no_double_space :: "rune list \<Rightarrow> bool" where
  "no_double_space (a # b # rs) \<longleftrightarrow> \<not> (a = 32 \<and> b = 32) \<and> no_double_space (b # rs)"
| "no_double_space _ \<longleftrightarrow> True"

definition normal_rune :: "rune \<Rightarrow> bool" where
  "normal_rune r \<longleftrightarrow> validRune r \<and> \<not> IsControl r \<and> (IsSpace r \<longrightarrow> r = 32) \<and> ToLower r = r"

definition normal_runes :: "rune list \<Rightarrow> bool" where
  "normal_runes rs \<longleftrightarrow> rs \<noteq> [] \<and> list_all normal_rune rs \<and> hd rs \<noteq> 32 \<and> last rs \<noteq> 32 \<and>
     no_double_space rs"

section \<open>The loop computes the reference\<close>

text \<open>
  The content of the builder is the text written so far, \<open>C\<close>, and possibly one space after it.
  \<open>core\<close> is the loop over that pair, without the length check.
\<close>

abbreviation pending :: "rune list \<Rightarrow> bool \<Rightarrow> rune list" where
  "pending C prev \<equiv> C @ (if prev then [32] else [])"

fun core :: "rune list \<Rightarrow> rune list \<Rightarrow> bool \<Rightarrow> rune list \<times> bool" where
  "core [] C prev = (C, prev)"
| "core (r # rs) C prev =
     (if IsSpace r then core rs C (prev \<or> C \<noteq> [])
      else if IsControl r then core rs C prev
      else core rs (pending C prev @ [ToLower r]) False)"

lemma core_length: "length C \<le> length (fst (core rs C prev))"
  by (induction rs C prev rule: core.induct) (auto split: if_splits)

lemma core_pending: "(prev \<Longrightarrow> C \<noteq> []) \<Longrightarrow> snd (core rs C prev) \<Longrightarrow> fst (core rs C prev) \<noteq> []"
  by (induction rs C prev rule: core.induct) (auto split: if_splits)

lemma normalizeLoop_core:
  assumes "prev \<Longrightarrow> C \<noteq> []" and "int (length C) \<le> m"
  shows "normalizeLoop m rs (encode (pending C prev)) prev (int (length (pending C prev))) =
    (let (C', prev') = core rs C prev
     in if int (length C') \<le> m then Inr (encode (pending C' prev')) else Inl ErrQueryTooLong)"
  using assms
proof (induction rs C prev rule: core.induct)
  case (1 C prev)
  then show ?case by simp
next
  case (2 r rs C prev)
  let ?D = "pending C prev @ [ToLower r]"
  consider (space) "IsSpace r" | (control) "\<not> IsSpace r" "IsControl r"
    | (long) "\<not> IsSpace r" "\<not> IsControl r" "int (length ?D) > m"
    | (keep) "\<not> IsSpace r" "\<not> IsControl r" "int (length ?D) \<le> m" by linarith
  then show ?case
  proof cases
    case space
    then show ?thesis using "2.IH"(1) "2.prems" by (cases prev; cases "C = []") (auto simp: Let_def add.commute)
  next
    case control
    then show ?thesis using "2.IH"(2) "2.prems" by simp
  next
    case long
    have "int (length ?D) \<le> int (length (fst (core rs ?D False)))"
      using core_length by (simp only: of_nat_le_iff)
    with long show ?thesis by (auto simp: split_beta)
  next
    case keep
    then show ?thesis using "2.IH"(3) by (auto simp: add.commute)
  qed
qed

text \<open>Appending words one by one, skipping the empty ones.\<close>

definition glue1 :: "rune list \<Rightarrow> rune list \<Rightarrow> rune list" where
  "glue1 C w = (if w = [] then C else if C = [] then w else C @ 32 # w)"

lemma glue1_simps [simp]:
  "glue1 C [] = C" "glue1 [] w = w" "w \<noteq> [] \<Longrightarrow> C \<noteq> [] \<Longrightarrow> glue1 C w = C @ 32 # w"
  by (simp_all add: glue1_def)

lemma split_words_nonempty [simp]: "split_words rs \<noteq> []"
  by (cases rs) simp_all

lemma clean_Nil [simp]: "clean [] = []"
  by (simp add: clean_def)

lemma core_words:
  assumes "prev \<Longrightarrow> C \<noteq> []"
  shows "fst (core rs C prev) =
    foldl glue1 (if prev then glue1 C (clean (hd (split_words rs)))
                 else C @ clean (hd (split_words rs)))
      (map clean (tl (split_words rs)))"
  using assms
proof (induction rs C prev rule: core.induct)
  case (1 C prev)
  then show ?case by simp
next
  case (2 r rs C prev)
  have split: "foldl glue1 D (map clean (split_words rs)) =
      foldl glue1 (glue1 D (clean (hd (split_words rs)))) (map clean (tl (split_words rs)))" for D
    by (cases "split_words rs") simp_all
  consider (space) "IsSpace r" | (control) "\<not> IsSpace r" "IsControl r"
    | (keep) "\<not> IsSpace r" "\<not> IsControl r" by blast
  then show ?case
  proof cases
    case space
    then show ?thesis using 2 split by (cases "C = []"; cases prev) simp_all
  next
    case control
    then show ?thesis using 2 by (simp add: clean_def)
  next
    case keep
    then show ?thesis using 2 by (simp add: clean_def)
  qed
qed

lemma join_words_Cons: "ws \<noteq> [] \<Longrightarrow> join_words (w # ws) = w @ 32 # join_words ws"
  by (cases ws) simp_all

lemma foldl_glue1_nonempty:
  "C \<noteq> [] \<Longrightarrow> foldl glue1 C ws = join_words (C # filter (\<lambda>w. w \<noteq> []) ws)"
proof (induction ws arbitrary: C)
  case (Cons w ws)
  show ?case
  proof (cases "w = []")
    case True
    then show ?thesis using Cons by simp
  next
    case False
    then have "glue1 C w = C @ 32 # w" using Cons.prems by simp
    then show ?thesis
      using Cons.IH [of "C @ 32 # w"] False
      by (cases "filter (\<lambda>w. w \<noteq> []) ws") (simp_all add: join_words_Cons)
  qed
qed simp

lemma foldl_glue1: "foldl glue1 [] ws = join_words (filter (\<lambda>w. w \<noteq> []) ws)"
proof (induction ws)
  case (Cons w ws)
  then show ?case by (cases "w = []") (simp_all add: foldl_glue1_nonempty)
qed simp

lemma core_canonical: "fst (core rs [] False) = canonical rs"
proof -
  have "fst (core rs [] False) = foldl glue1 [] (map clean (split_words rs))"
    by (cases "split_words rs") (simp_all add: core_words)
  then show ?thesis by (simp add: foldl_glue1 canonical_def)
qed

section \<open>Properties of the reference\<close>

lemma split_words_cases:
  assumes "w \<in> set (split_words (a # rs))"
  obtains "w = []" | "w \<in> set (split_words rs)"
  | v where "\<not> IsSpace a" "w = a # v" "v \<in> set (split_words rs)"
  using assms by (cases "split_words rs") (auto split: if_splits)

lemma split_words_no_space: "w \<in> set (split_words rs) \<Longrightarrow> r \<in> set w \<Longrightarrow> \<not> IsSpace r"
proof (induction rs arbitrary: w)
  case (Cons a rs)
  from Cons.prems(1) show ?case using Cons.IH Cons.prems(2) by (cases rule: split_words_cases) auto
qed simp

lemma set_split_words: "w \<in> set (split_words rs) \<Longrightarrow> set w \<subseteq> set rs"
proof (induction rs arbitrary: w)
  case (Cons a rs)
  from Cons.prems show ?case using Cons.IH by (cases rule: split_words_cases) auto
qed simp

text \<open>A cleaned word: non-empty, and every rune is normal and not a space.\<close>

definition clean_word :: "rune list \<Rightarrow> bool" where
  "clean_word w \<longleftrightarrow> w \<noteq> [] \<and> list_all (\<lambda>r. normal_rune r \<and> \<not> IsSpace r) w"

lemma canonical_words_clean:
  assumes "\<forall>r\<in>set rs. validRune r"
    and "w \<in> set (filter (\<lambda>w. w \<noteq> []) (map clean (split_words rs)))"
  shows "clean_word w"
proof -
  obtain v where v: "v \<in> set (split_words rs)" "w = clean v" "w \<noteq> []" using assms(2) by auto
  have "normal_rune (ToLower r) \<and> \<not> IsSpace (ToLower r)" if r: "r \<in> set v" "\<not> IsControl r" for r
  proof -
    have "\<not> IsSpace r" using v(1) r(1) by (rule split_words_no_space)
    moreover have "validRune r" using set_split_words [OF v(1)] r(1) assms(1) by blast
    ultimately show ?thesis
      using r(2)
      by (simp add: normal_rune_def ToLower_idem ToLower_valid ToLower_not_space ToLower_not_control)
  qed
  with v show ?thesis by (auto simp: clean_word_def clean_def list_all_iff)
qed

lemma normal_space: "normal_rune 32"
  by (simp add: normal_rune_def validRune_def IsControl_def ToLower_def)

lemma no_double_space_Cons:
  "no_double_space ys \<Longrightarrow> ys = [] \<or> v \<noteq> 32 \<or> hd ys \<noteq> 32 \<Longrightarrow> no_double_space (v # ys)"
  by (cases ys) auto

lemma no_double_space_append:
  "no_double_space xs \<Longrightarrow> no_double_space ys \<Longrightarrow> (xs = [] \<or> ys = [] \<or> last xs \<noteq> 32 \<or> hd ys \<noteq> 32) \<Longrightarrow>
   no_double_space (xs @ ys)"
  by (induction xs rule: no_double_space.induct) (auto intro: no_double_space_Cons)

lemma no_double_space_none: "32 \<notin> set xs \<Longrightarrow> no_double_space xs"
  by (induction xs rule: no_double_space.induct) auto

lemma clean_word_facts:
  assumes "clean_word w"
  shows "32 \<notin> set w" and "hd w \<noteq> 32" and "last w \<noteq> 32" and "no_double_space w" and "w \<noteq> []"
    and "list_all normal_rune w"
proof -
  show n: "32 \<notin> set w" using assms by (auto simp: clean_word_def list_all_iff IsSpace_def)
  show ne: "w \<noteq> []" using assms by (simp add: clean_word_def)
  show "hd w \<noteq> 32" and "last w \<noteq> 32" using n ne hd_in_set last_in_set by metis+
  show "no_double_space w" using n by (rule no_double_space_none)
  show "list_all normal_rune w" using assms by (auto simp: clean_word_def list_all_iff)
qed

lemma join_words_normal:
  "ws \<noteq> [] \<Longrightarrow> \<forall>w\<in>set ws. clean_word w \<Longrightarrow> normal_runes (join_words ws)"
proof (induction ws rule: join_words.induct)
  case (2 w)
  then show ?case by (simp add: normal_runes_def clean_word_facts)
next
  case (3 w v ws)
  let ?r = "join_words (v # ws)"
  have w: "clean_word w" and r: "normal_runes ?r" using 3 by auto
  have "no_double_space (32 # ?r)"
    using r by (cases ?r) (auto simp: normal_runes_def)
  then have "no_double_space (w @ 32 # ?r)"
    using clean_word_facts [OF w] by (intro no_double_space_append) auto
  then show ?case using clean_word_facts [OF w] r by (simp add: normal_runes_def normal_space)
qed simp

lemma canonical_normal:
  "\<forall>r\<in>set rs. validRune r \<Longrightarrow> canonical rs \<noteq> [] \<Longrightarrow> normal_runes (canonical rs)"
  unfolding canonical_def using canonical_words_clean by (intro join_words_normal) auto

lemma canonical_valid:
  assumes "\<forall>r\<in>set rs. validRune r" and "r \<in> set (canonical rs)"
  shows "validRune r"
proof -
  have "canonical rs \<noteq> []" using assms(2) by auto
  then have "normal_runes (canonical rs)" using assms(1) by (rule canonical_normal [rotated])
  then show ?thesis using assms(2) by (auto simp: normal_runes_def normal_rune_def list_all_iff)
qed

text \<open>Leading and trailing white space is irrelevant.\<close>

lemma canonical_space_Cons: "IsSpace r \<Longrightarrow> canonical (r # rs) = canonical rs"
  by (simp add: canonical_def)

lemma split_words_snoc: "IsSpace r \<Longrightarrow> split_words (rs @ [r]) = split_words rs @ [[]]"
  by (induction rs) auto

lemma canonical_space_snoc: "IsSpace r \<Longrightarrow> canonical (rs @ [r]) = canonical rs"
  by (simp add: canonical_def split_words_snoc)

lemma canonical_dropWhile: "canonical (dropWhile IsSpace rs) = canonical rs"
  by (induction rs) (simp_all add: canonical_space_Cons)

lemma canonical_trim: "canonical (trim IsSpace rs) = canonical rs"
proof -
  have "canonical (rev (dropWhile IsSpace (rev xs))) = canonical xs" for xs
    by (induction xs rule: rev_induct) (simp_all add: canonical_space_snoc)
  then show ?thesis by (simp add: trim_def canonical_dropWhile)
qed

text \<open>The canonical form of a joined list of clean words is that list.\<close>

lemma split_words_append_space:
  "\<forall>r\<in>set w. \<not> IsSpace r \<Longrightarrow> split_words (w @ 32 # rs) = w # split_words rs"
  by (induction w) (simp_all add: IsSpace_def)

lemma split_words_word: "\<forall>r\<in>set w. \<not> IsSpace r \<Longrightarrow> split_words w = [w]"
  by (induction w) simp_all

lemma split_words_join:
  "ws \<noteq> [] \<Longrightarrow> \<forall>w\<in>set ws. \<forall>r\<in>set w. \<not> IsSpace r \<Longrightarrow> split_words (join_words ws) = ws"
  by (induction ws rule: join_words.induct) (simp_all add: split_words_word split_words_append_space)

lemma clean_id: "clean_word w \<Longrightarrow> clean w = w"
  by (simp add: clean_word_def clean_def normal_rune_def list_all_iff map_idI)

lemma canonical_join:
  assumes "ws \<noteq> []" and "\<forall>w\<in>set ws. clean_word w"
  shows "canonical (join_words ws) = join_words ws"
proof -
  have "\<forall>w\<in>set ws. \<forall>r\<in>set w. \<not> IsSpace r"
    using assms(2) by (auto simp: clean_word_def list_all_iff)
  then have "split_words (join_words ws) = ws" using assms(1) by (rule split_words_join [rotated])
  moreover have "map clean ws = ws" using assms(2) by (simp add: clean_id map_idI)
  moreover have "filter (\<lambda>w. w \<noteq> []) ws = ws" using assms(2) by (auto simp: clean_word_def)
  ultimately show ?thesis by (simp add: canonical_def)
qed

lemma canonical_idem: "\<forall>r\<in>set rs. validRune r \<Longrightarrow> canonical (canonical rs) = canonical rs"
proof (cases "canonical rs = []")
  case True
  then show ?thesis by (simp add: canonical_def)
next
  case False
  assume "\<forall>r\<in>set rs. validRune r"
  then have "\<forall>w\<in>set (filter (\<lambda>w. w \<noteq> []) (map clean (split_words rs))). clean_word w"
    using canonical_words_clean by blast
  moreover have "filter (\<lambda>w. w \<noteq> []) (map clean (split_words rs)) \<noteq> []"
    using False by (auto simp: canonical_def)
  ultimately show ?thesis unfolding canonical_def [of rs] by (intro canonical_join)
qed

section \<open>The normaliser\<close>

text \<open>The loop leaves the canonical text, possibly followed by one space, which the final
  \<open>TrimSpace\<close> removes.\<close>

lemma IsSpace_32: "IsSpace 32"
  by (simp add: IsSpace_def)

lemma trim_canonical:
  assumes "\<forall>r\<in>set rs. validRune r"
  shows "trim IsSpace (pending (canonical rs) p) = canonical rs"
proof (cases "canonical rs = []")
  case True
  then show ?thesis by (simp add: trim_eq_Nil_iff IsSpace_def)
next
  case False
  then have n: "normal_runes (canonical rs)" using assms by (rule canonical_normal [rotated])
  have sp: "IsSpace r \<longleftrightarrow> r = 32" if "r \<in> set (canonical rs)" for r
    using n that by (auto simp: normal_runes_def normal_rune_def list_all_iff IsSpace_def)
  have "\<not> IsSpace (hd (canonical rs))" "\<not> IsSpace (last (canonical rs))"
    using n sp False by (auto simp: normal_runes_def)
  then have "trim IsSpace (canonical rs) = canonical rs" by (intro trim_id) simp
  moreover have "trim IsSpace (canonical rs @ [32]) = trim IsSpace (canonical rs)"
    using False \<open>\<not> IsSpace (hd (canonical rs))\<close>
    by (cases "canonical rs") (simp_all add: trim_def IsSpace_32)
  ultimately show ?thesis by simp
qed

lemma normalizeLoop_canonical:
  assumes "0 < m"
  obtains p where "normalizeLoop m rs [] False 0 =
    (if int (length (canonical rs)) \<le> m then Inr (encode (pending (canonical rs) p))
     else Inl ErrQueryTooLong)"
  using normalizeLoop_core [of False "[]" m rs] core_canonical [of rs] assms
  by (cases "core rs [] False") auto

lemma effectiveMaxRunes_pos [simp]: "0 < effectiveMaxRunes m" "0 \<le> effectiveMaxRunes m"
  by (simp_all add: effectiveMaxRunes_def defaultMaxQueryRunes_def)

lemma NormalizeQuery_eq:
  "NormalizeQuery s m =
    (let c = canonical (runes s)
     in if c = [] then Inl ErrEmptyQuery
        else if int (length c) > effectiveMaxRunes m then Inl ErrQueryTooLong
        else Inr (encode c))"
proof -
  let ?c = "canonical (runes s)"
  have valid: "\<forall>r\<in>set (runes s). validRune r" using runes_valid by blast
  have vc: "\<forall>r\<in>set ?c. validRune r" using canonical_valid [OF valid] by blast
  have c: "canonical (runes (TrimSpace s)) = ?c" by (simp add: runes_TrimSpace canonical_trim)
  obtain p where loop: "normalizeLoop (effectiveMaxRunes m) (runes (TrimSpace s)) [] False 0 =
      (if int (length ?c) \<le> effectiveMaxRunes m then Inr (encode (pending ?c p))
       else Inl ErrQueryTooLong)"
    using normalizeLoop_canonical [OF effectiveMaxRunes_pos(1)] c by metis
  have "\<forall>r\<in>set (pending ?c p). validRune r" using vc by (auto simp: validRune_def)
  then have t: "TrimSpace (encode (pending ?c p)) = encode ?c"
    using TrimSpace_encode trim_canonical [OF valid] by metis
  have cnt: "RuneCountInString (encode ?c) = int (length ?c)"
    using runes_encode [OF vc] by (simp add: RuneCountInString_def)
  have "TrimSpace s = [] \<Longrightarrow> ?c = []" using c by (auto simp: canonical_def)
  then show ?thesis
    unfolding NormalizeQuery_def Let_def loop using t cnt by auto
qed

text \<open>
  C9: \<open>NormalizeQuery\<close> is the reference normaliser. On every string and every limit it returns the
  canonical text of the query (its words, cleaned and joined by single spaces) if that text is not
  empty and has at most the effective number of runes, \<open>ErrEmptyQuery\<close> if it is empty and
  \<open>ErrQueryTooLong\<close> if it is longer; the length check inside the loop never rejects a query that the
  final check would accept.
\<close>

theorem NormalizeQuery_canonical:
  "NormalizeQuery s m =
    (let c = canonical (runes s)
     in if c = [] then Inl ErrEmptyQuery
        else if int (length c) > effectiveMaxRunes m then Inl ErrQueryTooLong
        else Inr (encode c))"
  by (rule NormalizeQuery_eq)

lemma NormalizeQuery_InrD:
  assumes "NormalizeQuery s m = Inr q"
  shows "q = encode (canonical (runes s))" and "canonical (runes s) \<noteq> []"
    and "runes q = canonical (runes s)" and "int (length (canonical (runes s))) \<le> effectiveMaxRunes m"
proof -
  show q: "q = encode (canonical (runes s))" and "canonical (runes s) \<noteq> []"
    and "int (length (canonical (runes s))) \<le> effectiveMaxRunes m"
    using assms unfolding NormalizeQuery_eq by (auto simp: Let_def split: if_splits)
  show "runes q = canonical (runes s)"
    unfolding q using canonical_valid runes_valid by (intro runes_encode) blast
qed

text \<open>
  A query that \<open>NormalizeQuery\<close> accepts is in normal form: at least one rune, at most the
  effective maximum, no control character, no white space except single plain spaces, none of them at
  the ends, and every letter in lower case.
\<close>

lemma NormalizeQuery_normal:
  assumes "NormalizeQuery s m = Inr q"
  shows "normal_runes (runes q) \<and> RuneCountInString q \<le> effectiveMaxRunes m"
  using NormalizeQuery_InrD [OF assms] canonical_normal runes_valid
  by (auto simp: RuneCountInString_def)

text \<open>
  Normalising a normalised query again with the same limit changes nothing, so a stored query and a
  re-submitted one are the same key.
\<close>

lemma NormalizeQuery_idem:
  assumes "NormalizeQuery s m = Inr q"
  shows "NormalizeQuery q m = Inr q"
proof -
  note q = NormalizeQuery_InrD [OF assms]
  have "canonical (runes q) = canonical (runes s)"
    unfolding q(3) using canonical_idem runes_valid by blast
  then show ?thesis unfolding NormalizeQuery_eq [of q] using q by simp
qed

end
