(* ===== verification/Go_Heap.thy ===== *)
theory Go_Heap
  imports Go_Prelude
begin

text \<open>
  \<open>container/heap\<close>, the binary heap of the standard library on a slice: \<open>up\<close>, \<open>down\<close>, \<open>Push\<close> and
  \<open>Fix\<close>, with the element comparison \<open>lt\<close> of the heap's interface as an argument. The contract the
  package asks of \<open>Less\<close>, a strict weak order, is the locale \<open>heap_order\<close>; under it \<open>Push\<close> and \<open>Fix\<close> keep
  the heap property and permute the elements, and the root is a least element.
\<close>

definition swap :: "'a list \<Rightarrow> nat \<Rightarrow> nat \<Rightarrow> 'a list" where
  "swap h i j = h[i := h ! j, j := h ! i]"

definition parent :: "nat \<Rightarrow> nat" where
  "parent j = (j - 1) div 2"

lemma parent_less [simp]: "0 < j \<Longrightarrow> parent j < j"
  by (simp add: parent_def)

lemma parent_0 [simp]: "parent 0 = 0"
  by (simp add: parent_def)

lemma parent_eq: "0 < k \<Longrightarrow> parent k = i \<longleftrightarrow> k = 2 * i + 1 \<or> k = 2 * i + 2"
  by (auto simp: parent_def)

lemma parent_eq_self [simp]: "parent j = j \<longleftrightarrow> j = 0"
  by (cases "j = 0") (simp_all add: nat_neq_iff)

lemma parent_bound [simp]: "j < n \<Longrightarrow> parent j < n"
  by (cases "j = 0") (simp_all add: less_trans [OF parent_less])

function heap_up :: "('a \<Rightarrow> 'a \<Rightarrow> bool) \<Rightarrow> 'a list \<Rightarrow> nat \<Rightarrow> 'a list" where
  "heap_up lt h j =
     (let i = parent j
      in if i = j \<or> \<not> lt (h ! j) (h ! i) then h else heap_up lt (swap h i j) i)"
  by pat_completeness auto
termination
  by (relation "measure (\<lambda>(lt, h, j). j)") auto

function heap_down :: "('a \<Rightarrow> 'a \<Rightarrow> bool) \<Rightarrow> 'a list \<Rightarrow> nat \<Rightarrow> nat \<Rightarrow> 'a list \<times> nat" where
  "heap_down lt h i n =
     (let j1 = 2 * i + 1
      in if j1 \<ge> n then (h, i)
         else let j2 = j1 + 1; j = (if j2 < n \<and> lt (h ! j2) (h ! j1) then j2 else j1)
              in if \<not> lt (h ! j) (h ! i) then (h, i) else heap_down lt (swap h i j) j n)"
  by pat_completeness auto
termination
  by (relation "measure (\<lambda>(lt, h, i, n). n - i)") (auto simp: Let_def split: if_splits)

declare heap_up.simps [simp del] heap_down.simps [simp del]

definition heap_Push :: "('a \<Rightarrow> 'a \<Rightarrow> bool) \<Rightarrow> 'a list \<Rightarrow> 'a \<Rightarrow> 'a list" where
  "heap_Push lt h x = (let h' = h @ [x] in heap_up lt h' (length h' - 1))"

definition heap_Fix :: "('a \<Rightarrow> 'a \<Rightarrow> bool) \<Rightarrow> 'a list \<Rightarrow> nat \<Rightarrow> 'a list" where
  "heap_Fix lt h i =
     (case heap_down lt h i (length h) of
        (h', i') \<Rightarrow> if \<not> i' > i then heap_up lt h' i else h')"

section \<open>Permutation\<close>

lemma length_swap [simp]: "length (swap h i j) = length h"
  by (simp add: swap_def)

lemma mset_swap [simp]: "i < length h \<Longrightarrow> j < length h \<Longrightarrow> mset (swap h i j) = mset h"
  unfolding swap_def by (rule mset_swap)

lemma nth_swap:
  "i < length h \<Longrightarrow> j < length h \<Longrightarrow>
   swap h i j ! k = (if k = j then h ! i else if k = i then h ! j else h ! k)"
  by (simp add: swap_def nth_list_update)

lemma mset_heap_up: "j < length h \<Longrightarrow> mset (heap_up lt h j) = mset h"
proof (induction lt h j rule: heap_up.induct)
  case (1 lt h j)
  then show ?case by (subst heap_up.simps) (auto simp: Let_def)
qed

lemma mset_heap_down: "n \<le> length h \<Longrightarrow> mset (fst (heap_down lt h i n)) = mset h"
proof (induction lt h i n rule: heap_down.induct)
  case (1 lt h i n)
  show ?case
    using "1.prems" "1.IH" by (subst heap_down.simps) (auto simp: Let_def)
qed

lemma mset_heap_Push: "mset (heap_Push lt h x) = add_mset x (mset h)"
  by (simp add: heap_Push_def mset_heap_up)

lemma mset_heap_Fix: "i < length h \<Longrightarrow> mset (heap_Fix lt h i) = mset h"
  using mset_heap_down [of "length h" h lt i]
  by (auto simp: heap_Fix_def mset_heap_up split: prod.splits)
    (metis fst_conv mset_heap_up size_mset)

section \<open>The heap property\<close>

definition is_heap :: "('a \<Rightarrow> 'a \<Rightarrow> bool) \<Rightarrow> 'a list \<Rightarrow> bool" where
  "is_heap lt h \<longleftrightarrow> (\<forall>i. 0 < i \<and> i < length h \<longrightarrow> \<not> lt (h ! i) (h ! parent i))"

text \<open>
  The heap property but for one index: \<open>up_inv\<close> if the element at \<open>j\<close> may be too small for its parent,
  \<open>down_inv\<close> if the element at \<open>j\<close> may be too large for its children. In both, the parent of \<open>j\<close> fits
  above the children of \<open>j\<close>.
\<close>

definition grand :: "('a \<Rightarrow> 'a \<Rightarrow> bool) \<Rightarrow> 'a list \<Rightarrow> nat \<Rightarrow> bool" where
  "grand lt h j \<longleftrightarrow>
     (\<forall>i. 0 < j \<and> j < i \<and> i < length h \<and> parent i = j \<longrightarrow> \<not> lt (h ! i) (h ! parent j))"

definition up_inv :: "('a \<Rightarrow> 'a \<Rightarrow> bool) \<Rightarrow> 'a list \<Rightarrow> nat \<Rightarrow> bool" where
  "up_inv lt h j \<longleftrightarrow> j < length h \<and> grand lt h j \<and>
     (\<forall>i. 0 < i \<and> i < length h \<and> i \<noteq> j \<longrightarrow> \<not> lt (h ! i) (h ! parent i))"

definition down_inv :: "('a \<Rightarrow> 'a \<Rightarrow> bool) \<Rightarrow> 'a list \<Rightarrow> nat \<Rightarrow> bool" where
  "down_inv lt h j \<longleftrightarrow> j < length h \<and> grand lt h j \<and>
     (\<forall>i. 0 < i \<and> i < length h \<and> parent i \<noteq> j \<longrightarrow> \<not> lt (h ! i) (h ! parent i))"

locale heap_order =
  fixes lt :: "'a \<Rightarrow> 'a \<Rightarrow> bool"
  assumes less_asym: "lt a b \<Longrightarrow> \<not> lt b a"
    and not_less_trans: "\<not> lt b a \<Longrightarrow> \<not> lt c b \<Longrightarrow> \<not> lt c a"
begin

lemma less_irrefl: "\<not> lt a a"
  using less_asym by blast

lemma up_step:
  assumes inv: "up_inv lt h j" and j: "0 < j" and viol: "lt (h ! j) (h ! parent j)"
  shows "up_inv lt (swap h (parent j) j) (parent j)"
proof -
  let ?i = "parent j" and ?h = "swap h (parent j) j"
  have len: "j < length h" "?i < length h" and pj: "?i < j" using inv j by (auto simp: up_inv_def)
  note nth = nth_swap [OF len(2) len(1)]
  have heap: "\<not> lt (h ! k) (h ! parent k)" if "0 < k" "k < length h" "k \<noteq> j" for k
    using inv that by (auto simp: up_inv_def)
  have child: "\<not> lt (h ! k) (h ! ?i)" if "0 < k" "k < length h" "parent k = j" for k
    using inv that j by (auto simp: up_inv_def grand_def)
  have asym: "\<not> lt (h ! ?i) (h ! j)" using viol less_asym by blast
  have "\<not> lt (?h ! k) (?h ! parent k)" if k: "0 < k" "k < length h" "k \<noteq> ?i" for k
  proof -
    consider "k = j" | "k \<noteq> j" "parent k = j" | "k \<noteq> j" "parent k = ?i" | "k \<noteq> j" "parent k \<noteq> j" "parent k \<noteq> ?i"
      by blast
    then show ?thesis
    proof cases
      case 1
      then show ?thesis using asym pj by (simp add: nth)
    next
      case 2
      then show ?thesis using child k by (simp add: nth)
    next
      case 3
      then have "\<not> lt (h ! k) (h ! ?i)" using heap k by metis
      then have "\<not> lt (h ! k) (h ! j)" using asym not_less_trans by blast
      then show ?thesis using 3 k pj by (simp add: nth)
    next
      case 4
      then show ?thesis using heap k by (simp add: nth)
    qed
  qed
  moreover have "grand lt ?h ?i"
  proof -
    have "\<not> lt (?h ! k) (?h ! parent ?i)" if k: "0 < ?i" "?i < k" "k < length h" "parent k = ?i" for k
    proof -
      have pp: "parent ?i < ?i" using k(1) by simp
      have up: "\<not> lt (h ! ?i) (h ! parent ?i)" using heap k len pj by simp
      have "k \<noteq> j \<Longrightarrow> \<not> lt (h ! k) (h ! ?i)" using heap [of k] k by auto
      then have "k \<noteq> j \<Longrightarrow> \<not> lt (h ! k) (h ! parent ?i)" using up not_less_trans by blast
      then show ?thesis using k pp pj up by (simp add: nth)
    qed
    then show ?thesis by (simp add: grand_def)
  qed
  ultimately show ?thesis using len by (simp add: up_inv_def)
qed

lemma heap_up_heap: "up_inv lt h j \<Longrightarrow> is_heap lt (heap_up lt h j)"
proof (induction j arbitrary: h rule: less_induct)
  case (less j)
  show ?case
  proof (cases "parent j = j \<or> \<not> lt (h ! j) (h ! parent j)")
    case True
    then have "\<not> lt (h ! j) (h ! parent j)" using less_irrefl by metis
    then have "is_heap lt h" using less.prems by (auto simp: up_inv_def is_heap_def)
    with True show ?thesis by (subst heap_up.simps) (simp add: Let_def)
  next
    case False
    then have "0 < j" by (cases j) auto
    then have "is_heap lt (heap_up lt (swap h (parent j) j) (parent j))"
      using False less.prems by (intro less.IH up_step) auto
    with False show ?thesis by (subst heap_up.simps) (simp add: Let_def)
  qed
qed

lemma down_step:
  assumes inv: "down_inv lt h i" and j: "0 < j" "j < length h" "parent j = i"
    and least: "\<And>k. 0 < k \<Longrightarrow> k < length h \<Longrightarrow> parent k = i \<Longrightarrow> \<not> lt (h ! k) (h ! j)"
    and viol: "lt (h ! j) (h ! i)"
  shows "down_inv lt (swap h i j) j"
proof -
  let ?h = "swap h i j"
  have len: "i < length h" and ij: "i < j" using inv j by (auto simp: down_inv_def)
  note nth = nth_swap [OF len j(2)]
  have heap: "\<not> lt (h ! k) (h ! parent k)" if "0 < k" "k < length h" "parent k \<noteq> i" for k
    using inv that by (auto simp: down_inv_def)
  have "\<not> lt (?h ! k) (?h ! parent k)" if k: "0 < k" "k < length h" "parent k \<noteq> j" for k
  proof -
    consider "k = j" | "k = i" | "k \<noteq> j" "k \<noteq> i" "parent k = i" | "k \<noteq> j" "k \<noteq> i" "parent k \<noteq> i"
      by blast
    then show ?thesis
    proof cases
      case 1
      then show ?thesis using viol less_asym j ij by (simp add: nth)
    next
      case 2
      then have "\<not> lt (h ! j) (h ! parent i)" using inv j k ij by (auto simp: down_inv_def grand_def)
      moreover have "parent i < i" using 2 k by simp
      ultimately show ?thesis using 2 ij by (simp add: nth)
    next
      case 3
      then show ?thesis using least k ij by (simp add: nth)
    next
      case 4
      then show ?thesis using heap k by (simp add: nth)
    qed
  qed
  moreover have "\<not> lt (?h ! k) (?h ! parent j)" if k: "j < k" "k < length h" "parent k = j" for k
  proof -
    have "parent k \<noteq> i" using k ij by simp
    then have "\<not> lt (h ! k) (h ! j)" using heap [of k] k j by simp
    then show ?thesis using k j ij by (simp add: nth)
  qed
  then have "grand lt ?h j" by (simp add: grand_def)
  ultimately show ?thesis using j by (simp add: down_inv_def)
qed

text \<open>The child that \<open>down\<close> compares with is a least child.\<close>

lemma least_child:
  assumes "j1 = 2 * i + 1" and "j1 < n" and "n = length h"
    and "j = (if j1 + 1 < n \<and> lt (h ! (j1 + 1)) (h ! j1) then j1 + 1 else j1)"
  shows "0 < j" and "j < length h" and "parent j = i"
    and "\<And>k. 0 < k \<Longrightarrow> k < length h \<Longrightarrow> parent k = i \<Longrightarrow> \<not> lt (h ! k) (h ! j)"
proof -
  show "0 < j" and "j < length h" using assms by auto
  show "parent j = i" using assms by (auto simp: parent_eq)
  fix k assume k: "0 < k" "k < length h" "parent k = i"
  then have "k = j1 \<or> k = j1 + 1" using assms(1) by (auto simp: parent_eq)
  then show "\<not> lt (h ! k) (h ! j)"
    using assms k less_asym less_irrefl by (auto split: if_splits)
qed

lemma heap_down_heap:
  "down_inv lt h i \<Longrightarrow> is_heap lt (fst (heap_down lt h i (length h)))"
proof (induction "length h - i" arbitrary: h i rule: less_induct)
  case less
  define j1 where "j1 = 2 * i + 1"
  define j where "j = (if j1 + 1 < length h \<and> lt (h ! (j1 + 1)) (h ! j1) then j1 + 1 else j1)"
  have unfold: "heap_down lt h i (length h) =
      (if j1 \<ge> length h \<or> \<not> lt (h ! j) (h ! i) then (h, i)
       else heap_down lt (swap h i j) j (length h))"
    by (subst heap_down.simps) (simp add: Let_def j1_def j_def)
  have inner: "\<not> lt (h ! k) (h ! parent k)" if "0 < k" "k < length h" "parent k \<noteq> i" for k
    using less.prems that by (auto simp: down_inv_def)
  show ?case
  proof (cases "j1 \<ge> length h")
    case True
    then have "parent k \<noteq> i" if "0 < k" "k < length h" for k
      using that by (auto simp: parent_eq j1_def)
    then have "is_heap lt h" using inner by (auto simp: is_heap_def)
    then show ?thesis using True unfold by simp
  next
    case False
    then have "j1 < length h" by simp
    note child = least_child [OF j1_def this refl j_def]
    show ?thesis
    proof (cases "lt (h ! j) (h ! i)")
      case True
      have "down_inv lt (swap h i j) j" using less.prems child True by (rule down_step)
      moreover have "i < j" using child(1,3) by (metis parent_less)
      ultimately have "is_heap lt (fst (heap_down lt (swap h i j) j (length (swap h i j))))"
        using child(2) by (intro less.hyps) simp_all
      then show ?thesis using True False unfold by simp
    next
      case False
      then have "\<not> lt (h ! k) (h ! i)" if "0 < k" "k < length h" "parent k = i" for k
        using child(4) that not_less_trans by blast
      then have "is_heap lt h" using inner by (auto simp: is_heap_def)
      then show ?thesis using False unfold by simp
    qed
  qed
qed

lemma heap_root_least: "is_heap lt h \<Longrightarrow> k < length h \<Longrightarrow> \<not> lt (h ! k) (h ! 0)"
proof (induction k rule: less_induct)
  case (less k)
  show ?case
  proof (cases "k = 0")
    case False
    then have "\<not> lt (h ! parent k) (h ! 0)" using less by simp
    moreover have "\<not> lt (h ! k) (h ! parent k)" using less.prems False by (simp add: is_heap_def)
    ultimately show ?thesis using not_less_trans by blast
  qed (simp add: less_irrefl)
qed

lemma heap_Push_heap: "is_heap lt h \<Longrightarrow> is_heap lt (heap_Push lt h x)"
proof -
  assume "is_heap lt h"
  then have "up_inv lt (h @ [x]) (length h)"
    by (auto simp: up_inv_def grand_def is_heap_def nth_append)
  then show ?thesis by (simp add: heap_Push_def heap_up_heap)
qed

lemma heap_up_root: "heap_up lt h 0 = h"
  by (simp add: heap_up.simps)

lemma heap_Fix_root: "heap_Fix lt h 0 = fst (heap_down lt h 0 (length h))"
  by (simp add: heap_Fix_def heap_up_root split: prod.split)

lemma heap_Fix_heap:
  "is_heap lt h \<Longrightarrow> h \<noteq> [] \<Longrightarrow> is_heap lt (heap_Fix lt (h[0 := x]) 0)"
proof -
  assume "is_heap lt h" and "h \<noteq> []"
  then have "down_inv lt (h[0 := x]) 0"
    by (auto simp: down_inv_def grand_def is_heap_def nth_list_update)
  then show ?thesis using heap_down_heap by (fastforce simp: heap_Fix_root)
qed

end

end
