(* ===== verification/Top_Items.thy ===== *)
theory Top_Items
  imports Go_Heap
begin

text \<open>
  The Top-N selection of \<open>internal/aggregator/aggregator.go\<close>: \<open>TopItem\<close>, the order \<open>isBetter\<close>, the
  slice heap \<open>topItemHeap\<close> with the methods \<open>container/heap\<close> calls, \<open>sortTop\<close> and \<open>buildTop\<close>. The main
  results: the heap-based selection returns exactly the first \<open>limit\<close> positive counters in the order of
  \<open>isBetter\<close>, whatever order the runtime iterates the map in and whatever algorithm sorts the slice.
\<close>

section \<open>Items and their order\<close>

datatype top_item = TopItem (Query: string) (Count: int)

definition isBetter :: "top_item \<Rightarrow> top_item \<Rightarrow> bool" where
  "isBetter left right =
     (if Count left \<noteq> Count right then Count left > Count right else Query left < Query right)"

text \<open>\<open>isBetter\<close> is a strict linear order on items: the better item is the smaller one.\<close>

instantiation top_item :: linorder
begin

definition less_top_item :: "top_item \<Rightarrow> top_item \<Rightarrow> bool" where
  "less_top_item a b \<longleftrightarrow> isBetter a b"

definition less_eq_top_item :: "top_item \<Rightarrow> top_item \<Rightarrow> bool" where
  "less_eq_top_item a b \<longleftrightarrow> a = b \<or> isBetter a b"

instance
proof
  fix x y z :: top_item
  show "x < y \<longleftrightarrow> x \<le> y \<and> \<not> y \<le> x"
    by (auto simp: less_top_item_def less_eq_top_item_def isBetter_def split: if_splits)
  show "x \<le> x" by (simp add: less_eq_top_item_def)
  show "x \<le> y \<Longrightarrow> y \<le> z \<Longrightarrow> x \<le> z"
    by (auto simp: less_eq_top_item_def isBetter_def split: if_splits)
  show "x \<le> y \<Longrightarrow> y \<le> x \<Longrightarrow> x = y"
    by (auto simp: less_eq_top_item_def isBetter_def split: if_splits)
  show "x \<le> y \<or> y \<le> x"
    by (cases x; cases y) (auto simp: less_eq_top_item_def isBetter_def split: if_splits)
qed

end

section \<open>The heap of candidates\<close>

text \<open>\<open>Less\<close> compares two elements by index; \<open>heapLess\<close> is the comparison of the elements.\<close>

definition heapLess :: "top_item \<Rightarrow> top_item \<Rightarrow> bool" where
  "heapLess a b = (if Count a \<noteq> Count b then Count a < Count b else Query a > Query b)"

definition topItemHeap_Len :: "top_item list \<Rightarrow> int" where
  "topItemHeap_Len h = int (length h)"

definition topItemHeap_Less :: "top_item list \<Rightarrow> nat \<Rightarrow> nat \<Rightarrow> bool" where
  "topItemHeap_Less h i j = heapLess (h ! i) (h ! j)"

definition topItemHeap_Swap :: "top_item list \<Rightarrow> nat \<Rightarrow> nat \<Rightarrow> top_item list" where
  "topItemHeap_Swap h i j = swap h i j"

definition topItemHeap_Push :: "top_item list \<Rightarrow> top_item \<Rightarrow> top_item list" where
  "topItemHeap_Push h x = h @ [x]"

definition topItemHeap_Pop :: "top_item list \<Rightarrow> (top_item list \<times> top_item) option" where
  "topItemHeap_Pop old =
     (if old = [] then None
      else let index = length old - 1 in Some (take index old, old ! index))"

lemma heapLess_order: "heapLess a b \<longleftrightarrow> b < a"
  by (auto simp: heapLess_def less_top_item_def isBetter_def)

interpretation cand: heap_order heapLess
  by unfold_locales (auto simp: heapLess_order)

section \<open>Selection\<close>

fun selectTop :: "int \<Rightarrow> int gomap \<Rightarrow> top_item list \<Rightarrow> top_item list" where
  "selectTop limit [] candidates = candidates"
| "selectTop limit ((query, cnt) # rest) candidates =
     (if cnt \<le> 0 then selectTop limit rest candidates
      else let item = TopItem query cnt
           in if topItemHeap_Len candidates < limit
              then selectTop limit rest (heap_Push heapLess candidates item)
              else if isBetter item (candidates ! 0)
              then selectTop limit rest (heap_Fix heapLess (candidates[0 := item]) 0)
              else selectTop limit rest candidates)"

definition sortTop :: "top_item list \<Rightarrow> top_item list" where
  "sortTop items = sort items"

definition buildTop :: "int gomap \<Rightarrow> int \<Rightarrow> top_item list" where
  "buildTop counters limit =
     (if limit \<le> 0 \<or> counters = [] then []
      else sortTop (selectTop limit counters []))"

text \<open>The reference: sort all positive counters, take the first \<open>limit\<close>.\<close>

definition positive_items :: "int gomap \<Rightarrow> top_item list" where
  "positive_items m = map (\<lambda>(q, c). TopItem q c) (filter (\<lambda>(q, c). 0 < c) m)"

definition top_spec :: "int gomap \<Rightarrow> int \<Rightarrow> top_item list" where
  "top_spec m limit = take (nat limit) (sort (positive_items m))"

section \<open>The selection keeps the best items\<close>

text \<open>
  While the loop runs, the candidates are a heap, and everything seen but not kept is no better than
  any candidate; something was dropped only if the candidates are full.
\<close>

definition sel_inv :: "int \<Rightarrow> top_item multiset \<Rightarrow> top_item list \<Rightarrow> bool" where
  "sel_inv limit seen h \<longleftrightarrow> is_heap heapLess h \<and> int (length h) \<le> limit \<and>
     (\<exists>rest. seen = mset h + rest \<and> (rest \<noteq> {#} \<longrightarrow> int (length h) = limit) \<and>
        (\<forall>x\<in>#rest. \<forall>y\<in>set h. y \<le> x))"

lemma sel_inv_push:
  assumes "sel_inv limit seen h" and "int (length h) < limit"
  shows "sel_inv limit (add_mset x seen) (heap_Push heapLess h x)"
proof -
  have "seen = mset h" using assms by (auto simp: sel_inv_def)
  moreover have "length (heap_Push heapLess h x) = Suc (length h)"
    using mset_heap_Push [of heapLess h x] by (metis size_add_mset size_mset)
  ultimately show ?thesis
    using assms cand.heap_Push_heap [of h x] by (auto simp: sel_inv_def mset_heap_Push)
qed

lemma sel_inv_drop:
  assumes inv: "sel_inv limit seen h" and full: "\<not> int (length h) < limit" and "0 < limit"
    and worse: "\<not> x < h ! 0"
  shows "sel_inv limit (add_mset x seen) h"
proof -
  obtain rest where r: "seen = mset h + rest" "\<forall>x\<in>#rest. \<forall>y\<in>set h. y \<le> x"
    using inv by (auto simp: sel_inv_def)
  have len: "int (length h) = limit" using inv full by (auto simp: sel_inv_def)
  have "y \<le> h ! 0" if "y \<in> set h" for y
    using that cand.heap_root_least inv by (fastforce simp: in_set_conv_nth sel_inv_def heapLess_order)
  then have "\<forall>y\<in>set h. y \<le> x" using worse by fastforce
  then have "\<forall>z\<in>#add_mset x rest. \<forall>y\<in>set h. y \<le> z" using r(2) by auto
  moreover have "add_mset x seen = mset h + add_mset x rest" using r(1) by simp
  ultimately show ?thesis using inv len unfolding sel_inv_def by blast
qed

lemma sel_inv_replace:
  assumes inv: "sel_inv limit seen h" and full: "\<not> int (length h) < limit" and "0 < limit"
    and better: "x < h ! 0"
  shows "sel_inv limit (add_mset x seen) (heap_Fix heapLess (h[0 := x]) 0)"
proof -
  let ?h = "heap_Fix heapLess (h[0 := x]) 0"
  have len: "int (length h) = limit" using inv full by (auto simp: sel_inv_def)
  with \<open>0 < limit\<close> have ne: "h \<noteq> []" by auto
  then obtain w t where h: "h = w # t" by (cases h) auto
  obtain rest where r: "seen = mset h + rest" "\<forall>x\<in>#rest. \<forall>y\<in>set h. y \<le> x"
    using inv by (auto simp: sel_inv_def)
  have m: "mset ?h = add_mset x (mset t)" using mset_heap_Fix [of 0 "h[0 := x]" heapLess] h by simp
  then have s: "set ?h = insert x (set t)" by (metis set_mset_add_mset_insert set_mset_mset)
  have l: "length ?h = length h" using m h by (metis length_Cons size_add_mset size_mset)
  have "y \<le> w" if "y \<in> set h" for y
    using that cand.heap_root_least inv h
    by (fastforce simp: in_set_conv_nth sel_inv_def heapLess_order)
  then have "\<forall>z\<in>#add_mset w rest. \<forall>y\<in>set ?h. y \<le> z" using r(2) s better h by auto
  moreover have "add_mset x seen = mset ?h + add_mset w rest" using r(1) m h by simp
  moreover have "is_heap heapLess ?h" using inv ne by (simp add: sel_inv_def cand.heap_Fix_heap)
  ultimately show ?thesis using len l unfolding sel_inv_def by (metis order_refl)
qed

lemma selectTop_inv:
  assumes "0 < limit" and "sel_inv limit seen h"
  shows "sel_inv limit (mset (positive_items m) + seen) (selectTop limit m h)"
  using assms
proof (induction limit m h arbitrary: seen rule: selectTop.induct)
  case (1 limit h)
  then show ?case by (simp add: positive_items_def)
next
  case (2 limit q c rest h)
  let ?x = "TopItem q c"
  show ?case
  proof (cases "c \<le> 0")
    case True
    then show ?thesis using 2 by (simp add: positive_items_def)
  next
    case False
    then have p: "mset (positive_items ((q, c) # rest)) + seen =
        mset (positive_items rest) + add_mset ?x seen"
      by (simp add: positive_items_def)
    consider (push) "topItemHeap_Len h < limit"
      | (replace) "\<not> topItemHeap_Len h < limit" "isBetter ?x (h ! 0)"
      | (drop) "\<not> topItemHeap_Len h < limit" "\<not> isBetter ?x (h ! 0)" by blast
    then show ?thesis
    proof cases
      case push
      then have "sel_inv limit (add_mset ?x seen) (heap_Push heapLess h ?x)"
        using "2.prems" by (simp add: topItemHeap_Len_def sel_inv_push)
      from "2.IH"(2) [OF False refl push "2.prems"(1) this] show ?thesis using False push p by simp
    next
      case replace
      then have "sel_inv limit (add_mset ?x seen) (heap_Fix heapLess (h[0 := ?x]) 0)"
        using "2.prems"
        by (intro sel_inv_replace) (simp_all add: topItemHeap_Len_def less_top_item_def)
      from "2.IH"(3) [OF False refl replace "2.prems"(1) this] show ?thesis using False replace p by simp
    next
      case drop
      then have "sel_inv limit (add_mset ?x seen) h"
        using "2.prems"
        by (intro sel_inv_drop) (simp_all add: topItemHeap_Len_def less_top_item_def)
      from "2.IH"(4) [OF False refl drop "2.prems"(1) this] show ?thesis using False drop p by simp
    qed
  qed
qed

lemma sel_inv_take:
  assumes "sel_inv limit seen h" and "mset xs = seen"
  shows "sort h = take (nat limit) (sort xs)"
proof -
  obtain rest where r: "seen = mset h + rest" "rest \<noteq> {#} \<longrightarrow> int (length h) = limit"
      "\<forall>x\<in>#rest. \<forall>y\<in>set h. y \<le> x" and l: "int (length h) \<le> limit"
    using assms(1) by (auto simp: sel_inv_def)
  have "sorted (sort h @ sorted_list_of_multiset rest)" using r(3) by (auto simp: sorted_append)
  then have "sort xs = sort h @ sorted_list_of_multiset rest"
    using r(1) assms(2) by (intro properties_for_sort) simp_all
  moreover have "rest = {#} \<or> length (sort h) = nat limit" using r(2) by auto
  ultimately show ?thesis using l by auto
qed

lemma buildTop_eq: "buildTop m limit = top_spec m limit"
proof (cases "limit \<le> 0 \<or> m = []")
  case True
  then show ?thesis by (auto simp: buildTop_def top_spec_def positive_items_def)
next
  case False
  have "sel_inv limit {#} []" using False by (simp add: sel_inv_def is_heap_def)
  then have "sel_inv limit (mset (positive_items m)) (selectTop limit m [])"
    using selectTop_inv [of limit "{#}" "[]" m] False by simp
  then have "sort (selectTop limit m []) = take (nat limit) (sort (positive_items m))"
    by (rule sel_inv_take) simp
  then show ?thesis using False by (simp add: buildTop_def top_spec_def sortTop_def)
qed

text \<open>
  C8: \<open>buildTop\<close> is the reference selection. For every list of map entries, in the order in which the
  runtime iterates them, and every limit, the bounded min-heap followed by the sort returns exactly the
  first \<open>limit\<close> items of all positive counters in the order of \<open>isBetter\<close> (count descending, then
  query ascending), and nothing for a limit that is not positive.
\<close>

theorem buildTop_spec: "buildTop m limit = top_spec m limit"
  by (rule buildTop_eq)

lemma buildTop_mset_cong:
  assumes "mset m = mset m'"
  shows "buildTop m limit = buildTop m' limit"
proof -
  have "mset (positive_items m) = mset (positive_items m')"
    using assms by (simp add: positive_items_def flip: mset_filter mset_map)
      (metis mset_filter mset_map)
  then have "sort (positive_items m) = sort (positive_items m')"
    by (intro properties_for_sort) simp_all
  then show ?thesis by (simp add: buildTop_eq top_spec_def)
qed

text \<open>
  \<open>sortTop\<close> does not depend on the sorting algorithm of \<open>sort.Slice\<close>, which is not stable: a
  permutation of the items in which no item is better than an earlier one is the sorted slice.
\<close>

lemma sortTop_unique:
  assumes "mset ys = mset items" and "sorted_wrt (\<lambda>a b. \<not> isBetter b a) ys"
  shows "ys = sortTop items"
proof -
  have "sorted ys"
    using assms(2) unfolding less_top_item_def [symmetric]
    by (rule sorted_wrt_mono_rel [rotated]) simp
  then show ?thesis using assms(1) by (simp add: sortTop_def properties_for_sort)
qed

text \<open>\<open>Pop\<close> undoes \<open>Push\<close>, and \<open>Less\<close> orders the worst candidate first.\<close>

lemma topItemHeap_Pop_Push: "topItemHeap_Pop (topItemHeap_Push h x) = Some (h, x)"
  by (simp add: topItemHeap_Pop_def topItemHeap_Push_def)

end
