(* ===== verification/Go_Float.thy ===== *)
theory Go_Float
  imports Go_Prelude Complex_Main "HOL-Library.Log_Nat"
begin

text \<open>
  The \<open>float64\<close> arithmetic behind \<open>Duration.Seconds\<close>: values are the rationals that a 64-bit float
  represents, and each operation rounds its exact result to the nearest multiple of the unit in the
  last place of its binade, ties to even. Durations are far from the overflow and subnormal ranges,
  which are left out.
\<close>

definition round_even :: "rat \<Rightarrow> int" where
  "round_even q =
     (let n = \<lfloor>q\<rfloor>; f = q - of_int n
      in if f < 1 / 2 then n else if f > 1 / 2 then n + 1 else if even n then n else n + 1)"

text \<open>The exponent of the binade of a positive value: \<open>2 ^ e \<le> x < 2 ^ (e + 1)\<close>.\<close>

definition binade :: "rat \<Rightarrow> int" where
  "binade x = (if 1 \<le> x then int (floorlog 2 (nat \<lfloor>x\<rfloor>)) - 1 else - int (ceillog2 (nat \<lceil>1 / x\<rceil>)))"

definition pow2 :: "int \<Rightarrow> rat" where
  "pow2 e = (if 0 \<le> e then 2 ^ nat e else 1 / 2 ^ nat (- e))"

definition f64 :: "rat \<Rightarrow> rat" where
  "f64 x = (if x = 0 then 0
     else let u = pow2 (binade \<bar>x\<bar> - 52) in of_int (round_even (x / u)) * u)"

definition duration_Seconds :: "duration \<Rightarrow> rat" where
  "duration_Seconds d =
     (let sec = go_quot d second; nsec = go_rem d second
      in f64 (f64 (of_int sec) + f64 (f64 (of_int nsec) / 1000000000)))"

text \<open>The conversion \<open>int64(f)\<close> truncates towards zero.\<close>

definition f64_to_int64 :: "rat \<Rightarrow> int" where
  "f64_to_int64 x = (if 0 \<le> x then \<lfloor>x\<rfloor> else \<lceil>x\<rceil>)"

lemma round_even_int [simp]: "round_even (of_int n) = n"
  by (simp add: round_even_def)

lemma binade_nat:
  assumes "0 < n" and "n < 2 ^ 53"
  shows "binade (of_int n) \<le> 52" and "0 \<le> binade (of_int n)"
proof -
  have n: "0 < nat n" "nat n < 2 ^ 53" using assms by (simp_all add: nat_less_iff)
  have "floorlog 2 (nat n) \<le> 53" using n by (simp add: floorlog_leI)
  moreover have "0 < floorlog 2 (nat n)" using n by (simp add: floorlog_def)
  ultimately show "binade (of_int n) \<le> 52" and "0 \<le> binade (of_int n)"
    using assms by (simp_all add: binade_def)
qed

lemma pow2_pos [simp]: "0 < pow2 e" "pow2 e \<noteq> 0"
  by (simp_all add: pow2_def)

text \<open>Integers below \<open>2 ^ 53\<close> are represented exactly.\<close>

lemma f64_int:
  assumes "\<bar>n\<bar> < 2 ^ 53"
  shows "f64 (of_int n) = of_int n"
proof (cases "n = 0")
  case False
  let ?e = "binade (of_int \<bar>n\<bar>) - 52"
  have e: "?e \<le> 0" using binade_nat(1) [of "\<bar>n\<bar>"] assms False by simp
  have "of_int n / pow2 ?e = of_int (n * 2 ^ nat (- ?e))"
    using e by (cases "?e = 0") (simp_all add: pow2_def)
  then have "round_even (of_int n / pow2 ?e) = n * 2 ^ nat (- ?e)"
    by (metis round_even_int)
  moreover have "of_int (n * 2 ^ nat (- ?e)) * pow2 ?e = (of_int n :: rat)"
    using e by (cases "?e = 0") (simp_all add: pow2_def)
  ultimately show ?thesis using False by (simp add: f64_def Let_def of_int_abs)
qed (simp add: f64_def)

lemma f64_0 [simp]: "f64 0 = 0"
  by (simp add: f64_def)

text \<open>A whole number of seconds is converted exactly.\<close>

lemma duration_Seconds_whole:
  assumes "0 \<le> k" and "k < 2 ^ 53"
  shows "f64_to_int64 (duration_Seconds (k * second)) = k"
  using assms by (simp add: duration_Seconds_def f64_to_int64_def f64_int)

end
