(* ===== verification/Metric_Calls.thy ===== *)
theory Metric_Calls
  imports Go_Prelude
begin

text \<open>
  The metrics interface of the components. A component that records metrics returns the calls it makes
  on its \<open>Metrics\<close> value, in order; what a call does to the Prometheus collectors is the theory
  \<open>Metrics\<close>. A component with a nil \<open>Metrics\<close> makes no calls. The durations are measured with the wall
  clock and are inputs of the operations.
\<close>

datatype metric_call =
    ObserveKafkaMessage string
  | ObserveKafkaProcessingDuration duration
  | SetKafkaLastMessageTimestamp gotime
  | IncKafkaDecodeError
  | IncKafkaCommitError
  | IncKafkaReadError
  | ObserveEvent string
  | SetUniqueQueries int
  | SetTopCacheSize int
  | ObserveTopRebuild string duration
  | SetWindowBuckets int
  | SetCurrentWindowSeconds int
  | ObserveGRPCRequest string string duration
  | SetStopListSize int
  | ObserveStopListOperation string string
  | ObserveAntiSpamCheck string
  | SetAntiSpamActiveKeys int

text \<open>\<open>if x.metrics != nil { x.metrics.M(...) }\<close>\<close>

definition emit :: "bool \<Rightarrow> metric_call list \<Rightarrow> metric_call list" where
  "emit present calls = (if present then calls else [])"

end
