(* ===== verification/Aggregator.thy ===== *)
theory Aggregator
  imports Normalizer Top_Items Go_Float Metric_Calls
begin

text \<open>
  \<open>internal/aggregator/aggregator.go\<close> and \<open>types.go\<close>: the in-memory sliding window. The state is the
  ring of buckets, the global counters, the cached Top-N list and the flag \<open>dirty\<close>; every method of
  \<open>InMemoryAggregator\<close> is a definition that returns its result, the new state and the metric calls.

  \<open>a.now()\<close> and \<open>time.Now()\<close> are arguments \<open>now\<close>, a context is polled once at the start of a method.
  Everything after \<open>a.mu.Lock()\<close> is one critical section, so concurrent calls are a sequence of these
  operations; \<open>now\<close> is read before the lock, so the sequence need not be monotone in \<open>now\<close>.
\<close>

section \<open>Types\<close>

record agg_config =
  Window :: duration
  BucketSize :: duration
  DefaultLimit :: int
  MaxLimit :: int
  TopRefreshInterval :: duration
  MaxQueryRunes :: int
  AllowedFutureSkew :: duration
  HasMetrics :: bool

record search_event =
  ev_Query :: string
  ev_UserID :: string
  ev_SessionID :: string
  ev_IP :: string
  ev_Timestamp :: gotime

record snapshot =
  Items :: "top_item list"
  GeneratedAt :: gotime
  WindowSeconds :: int

text \<open>The counts of a bucket are \<open>None\<close> while the map is nil.\<close>

record bucket =
  unixSecond :: int
  bucket_counts :: "int gomap option"

record aggregator =
  agg_cfg :: agg_config
  bucketCount :: int
  agg_buckets :: "bucket list"
  agg_counters :: "int gomap"
  topCache :: "top_item list"
  topGeneratedAt :: gotime
  dirty :: bool

abbreviation hasMetrics :: "aggregator \<Rightarrow> bool" where
  "hasMetrics a \<equiv> HasMetrics (agg_cfg a)"

definition IsValidationError :: "go_error \<Rightarrow> bool" where
  "IsValidationError err \<longleftrightarrow> errors_Is err ErrEmptyQuery \<or> errors_Is err ErrQueryTooLong \<or>
     errors_Is err ErrInvalidTimestamp \<or> errors_Is err ErrEventFromFuture"

section \<open>Construction\<close>

definition defaultBucketSize :: duration where
  "defaultBucketSize = second"

definition setWindowMetrics :: "aggregator \<Rightarrow> metric_call list" where
  "setWindowMetrics a = emit (hasMetrics a)
     [SetWindowBuckets (bucketCount a),
      SetCurrentWindowSeconds (f64_to_int64 (duration_Seconds (Window (agg_cfg a)))),
      SetTopCacheSize 0, SetUniqueQueries 0]"

text \<open>The defaults that \<open>New\<close> fills in, in the two places where it does.\<close>

definition defaultBucket :: "agg_config \<Rightarrow> agg_config" where
  "defaultBucket cfg =
     (if BucketSize cfg \<le> 0 then cfg\<lparr>BucketSize := defaultBucketSize\<rparr> else cfg)"

definition defaultRest :: "agg_config \<Rightarrow> agg_config" where
  "defaultRest cfg =
     (let cfg1 = (if TopRefreshInterval cfg \<le> 0
                  then cfg\<lparr>TopRefreshInterval := 500 * millisecond\<rparr> else cfg);
          cfg2 = (if MaxQueryRunes cfg1 \<le> 0
                  then cfg1\<lparr>MaxQueryRunes := defaultMaxQueryRunes\<rparr> else cfg1)
      in if AllowedFutureSkew cfg2 \<le> 0 then cfg2\<lparr>AllowedFutureSkew := 5 * second\<rparr> else cfg2)"

definition agg_New :: "agg_config \<Rightarrow> gotime \<Rightarrow> go_error + (aggregator \<times> metric_call list)" where
  "agg_New cfg0 now =
     (if Window cfg0 \<le> 0 then Inl (ErrNew ''aggregator window must be positive'')
      else let cfg1 = defaultBucket cfg0
      in if go_rem (Window cfg1) (BucketSize cfg1) \<noteq> 0
         then Inl (ErrNew ''aggregator window must be divisible by bucket size'')
      else if DefaultLimit cfg1 \<le> 0
         then Inl (ErrNew ''aggregator default limit must be positive'')
      else if MaxLimit cfg1 < DefaultLimit cfg1
         then Inl (ErrNew ''aggregator max limit must be greater than or equal to default limit'')
      else let cfg = defaultRest cfg1;
               bc = go_quot (Window cfg) (BucketSize cfg)
      in if bc \<le> 0 then Inl (ErrNew ''aggregator bucket count must be positive'')
      else let a = \<lparr>agg_cfg = cfg, bucketCount = bc,
                    agg_buckets = replicate (nat bc) \<lparr>unixSecond = 0, bucket_counts = None\<rparr>,
                    agg_counters = [], topCache = [], topGeneratedAt = now, dirty = False\<rparr>
      in Inr (a, setWindowMetrics a))"

section \<open>Validation of an event\<close>

definition validateAndNormalize ::
  "aggregator \<Rightarrow> search_event \<Rightarrow> gotime \<Rightarrow> go_error + (string \<times> bool)" where
  "validateAndNormalize a event now =
     (if time_IsZero (ev_Timestamp event) then Inl ErrInvalidTimestamp
      else let eventTime = time_UTC (ev_Timestamp event)
      in if time_After eventTime (time_Add now (AllowedFutureSkew (agg_cfg a)))
         then Inl ErrEventFromFuture
      else if time_Before eventTime (time_Add now (- Window (agg_cfg a))) then Inr ([], True)
      else case NormalizeQuery (ev_Query event) (MaxQueryRunes (agg_cfg a)) of
             Inl err \<Rightarrow> Inl err
           | Inr query \<Rightarrow> Inr (query, False))"

section \<open>Buckets\<close>

definition bucketIndex :: "int \<Rightarrow> int \<Rightarrow> int" where
  "bucketIndex sec bc = (let index = go_rem sec bc in if index < 0 then index + bc else index)"

text \<open>The second of the bucket a time belongs to, in \<open>Add\<close> and in \<open>expireLocked\<close>.\<close>

definition bucketSecond :: "aggregator \<Rightarrow> gotime \<Rightarrow> int" where
  "bucketSecond a t = time_Unix (time_Truncate (time_UTC t) (BucketSize (agg_cfg a)))"

fun subtractCounts :: "int gomap \<Rightarrow> int gomap \<Rightarrow> int gomap" where
  "subtractCounts [] counters = counters"
| "subtractCounts ((query, cnt) # rest) counters =
     (let nextCount = wrap64 (gm_get counters query - cnt)
      in if nextCount \<le> 0 then subtractCounts rest (gm_delete counters query)
         else subtractCounts rest (gm_put counters query nextCount))"

definition counts_of :: "bucket \<Rightarrow> int gomap" where
  "counts_of b = (case bucket_counts b of None \<Rightarrow> [] | Some m \<Rightarrow> m)"

definition clearBucketLocked :: "int gomap \<Rightarrow> bucket \<Rightarrow> int gomap \<times> bucket" where
  "clearBucketLocked counters b =
     (subtractCounts (counts_of b) counters,
      \<lparr>unixSecond = 0, bucket_counts = map_option (\<lambda>_. []) (bucket_counts b)\<rparr>)"

fun expireLoop :: "int \<Rightarrow> bucket list \<Rightarrow> int gomap \<Rightarrow> bucket list \<times> int gomap \<times> bool" where
  "expireLoop cutoffSecond [] counters = ([], counters, False)"
| "expireLoop cutoffSecond (b # bs) counters =
     (if bucket_counts b = None \<or> unixSecond b = 0 then
        (case expireLoop cutoffSecond bs counters of (bs', cs', ex) \<Rightarrow> (b # bs', cs', ex))
      else if unixSecond b < cutoffSecond then
        (case clearBucketLocked counters b of
           (cs1, b') \<Rightarrow>
             (case expireLoop cutoffSecond bs cs1 of (bs', cs', ex) \<Rightarrow> (b' # bs', cs', True)))
      else (case expireLoop cutoffSecond bs counters of (bs', cs', ex) \<Rightarrow> (b # bs', cs', ex)))"

definition cutoffSecond :: "aggregator \<Rightarrow> gotime \<Rightarrow> int" where
  "cutoffSecond a now = bucketSecond a now - bucketCount a + 1"

definition expireLocked :: "aggregator \<Rightarrow> gotime \<Rightarrow> aggregator \<times> bool" where
  "expireLocked a now =
     (case expireLoop (cutoffSecond a now) (agg_buckets a) (agg_counters a) of
        (bs, cs, expired) \<Rightarrow> (a\<lparr>agg_buckets := bs, agg_counters := cs\<rparr>, expired))"

section \<open>Metrics\<close>

definition observeEvent :: "aggregator \<Rightarrow> string \<Rightarrow> metric_call list" where
  "observeEvent a status = emit (hasMetrics a) [ObserveEvent status]"

definition setCounterMetricsLocked :: "aggregator \<Rightarrow> metric_call list" where
  "setCounterMetricsLocked a = emit (hasMetrics a)
     [SetUniqueQueries (int (length (agg_counters a))), SetTopCacheSize (int (length (topCache a)))]"

section \<open>Methods\<close>

text \<open>The critical section of \<open>Add\<close>.\<close>

definition addLocked :: "aggregator \<Rightarrow> gotime \<Rightarrow> int \<Rightarrow> string \<Rightarrow> aggregator" where
  "addLocked a0 now eventSecond query =
     (let a = fst (expireLocked a0 now);
          index = nat (bucketIndex eventSecond (bucketCount a));
          b0 = agg_buckets a ! index;
          b1 = (if bucket_counts b0 = None then b0\<lparr>bucket_counts := Some []\<rparr> else b0);
          (cs, b2) = (if unixSecond b1 \<noteq> eventSecond
                      then (case clearBucketLocked (agg_counters a) b1 of
                              (cs', b') \<Rightarrow> (cs', b'\<lparr>unixSecond := eventSecond\<rparr>))
                      else (agg_counters a, b1));
          m = counts_of b2;
          b3 = b2\<lparr>bucket_counts := Some (gm_put m query (wrap64 (gm_get m query + 1)))\<rparr>
      in a\<lparr>agg_buckets := (agg_buckets a)[index := b3],
           agg_counters := gm_put cs query (wrap64 (gm_get cs query + 1)), dirty := True\<rparr>)"

definition agg_Add ::
  "aggregator \<Rightarrow> ctx \<Rightarrow> gotime \<Rightarrow> search_event \<Rightarrow> go_error option \<times> aggregator \<times> metric_call list"
where
  "agg_Add a c now event =
     (case c of
        Some err \<Rightarrow> (Some err, a, [])
      | None \<Rightarrow>
          (case validateAndNormalize a event now of
             Inl err \<Rightarrow> (Some err, a, observeEvent a ''invalid'')
           | Inr (query, ignore) \<Rightarrow>
               if ignore then (None, a, observeEvent a ''expired'')
               else let a' = addLocked a now (bucketSecond a (ev_Timestamp event)) query
                    in (None, a', setCounterMetricsLocked a' @ observeEvent a' ''accepted'')))"

definition normalizeLimit :: "aggregator \<Rightarrow> int \<Rightarrow> int" where
  "normalizeLimit a limit =
     (if limit \<le> 0 then DefaultLimit (agg_cfg a)
      else if limit > MaxLimit (agg_cfg a) then MaxLimit (agg_cfg a)
      else limit)"

definition agg_GetTop :: "aggregator \<Rightarrow> ctx \<Rightarrow> int \<Rightarrow> go_error + (top_item list \<times> gotime)" where
  "agg_GetTop a c limit0 =
     (case c of
        Some err \<Rightarrow> Inl err
      | None \<Rightarrow>
          (let limit = normalizeLimit a limit0;
               items = (if limit < int (length (topCache a)) then take (nat limit) (topCache a)
                        else topCache a)
           in Inr (items, topGeneratedAt a)))"

definition agg_RebuildTop ::
  "aggregator \<Rightarrow> ctx \<Rightarrow> gotime \<Rightarrow> duration \<Rightarrow> go_error option \<times> aggregator \<times> metric_call list"
where
  "agg_RebuildTop a c now elapsed =
     (case c of
        Some err \<Rightarrow> (Some err, a, emit (hasMetrics a) [ObserveTopRebuild ''failed'' elapsed])
      | None \<Rightarrow>
          (let (a1, expired) = expireLocked a now;
               a2 = (if \<not> dirty a1 \<and> \<not> expired then a1
                     else a1\<lparr>topCache := buildTop (agg_counters a1) (MaxLimit (agg_cfg a1)),
                             topGeneratedAt := now, dirty := False\<rparr>)
           in (None, a2, setCounterMetricsLocked a2 @
                 emit (hasMetrics a) [ObserveTopRebuild ''success'' elapsed])))"

definition agg_Snapshot :: "aggregator \<Rightarrow> ctx \<Rightarrow> int \<Rightarrow> go_error + snapshot" where
  "agg_Snapshot a c limit =
     (case agg_GetTop a c limit of
        Inl err \<Rightarrow> Inl err
      | Inr (items, generatedAt) \<Rightarrow>
          Inr \<lparr>Items = items, GeneratedAt = generatedAt,
               WindowSeconds = f64_to_int64 (duration_Seconds (Window (agg_cfg a)))\<rparr>)"

definition agg_Close :: "ctx \<Rightarrow> go_error option" where
  "agg_Close c = c"

text \<open>
  \<open>Run\<close> waits for the context or the ticker. The arguments of the loop are what the select statement
  receives, in order: \<open>RunDone\<close>, or a tick with what \<open>RebuildTop\<close> then finds (the context, the clock,
  the time it takes). The result is \<open>None\<close> while the loop still waits after the last of them,
  \<open>Some\<close> of the returned error value otherwise.
\<close>

datatype run_event = RunDone | RunTick ctx gotime duration

fun agg_Run ::
  "aggregator \<Rightarrow> run_event list \<Rightarrow> go_error option option \<times> aggregator \<times> metric_call list" where
  "agg_Run a [] = (None, a, [])"
| "agg_Run a (RunDone # _) = (Some None, a, [])"
| "agg_Run a (RunTick c now elapsed # es) =
     (case agg_RebuildTop a c now elapsed of
        (Some err, a', ms) \<Rightarrow>
          (if errors_Is err Canceled \<or> errors_Is err DeadlineExceeded then (Some None, a', ms)
           else (Some (Some err), a', ms))
      | (None, a', ms) \<Rightarrow> (case agg_Run a' es of (r, a'', ms') \<Rightarrow> (r, a'', ms @ ms')))"

end
