(* ===== verification/Aggregator_Inv.thy ===== *)
theory Aggregator_Inv
  imports Aggregator
begin

text \<open>
  The invariant of the aggregator: the global counters are the sums of the bucket counts, no counter
  or bucket count is zero or negative, a bucket only holds the second its index belongs to, an empty
  bucket has second 0, and a clean cache is the Top-N of the counters. Every method keeps it, for
  arbitrary readings of the clock and arbitrary events, as long as fewer than \<open>2 ^ 63 - 1\<close> events were
  added.
\<close>

section \<open>Maps of positive counts\<close>

definition pos_map :: "int gomap \<Rightarrow> bool" where
  "pos_map m \<longleftrightarrow> gm_wf m \<and> (\<forall>q\<in>gm_keys m. 0 < gm_get m q)"

lemma pos_map_Nil [simp]: "pos_map []"
  by (simp add: pos_map_def)

lemma pos_map_nonneg: "pos_map m \<Longrightarrow> 0 \<le> gm_get m q"
  using gm_get_notin [of q m] by (cases "q \<in> gm_keys m") (auto simp: pos_map_def less_imp_le)

lemma pos_map_keys: "pos_map m \<Longrightarrow> q \<in> gm_keys m \<longleftrightarrow> 0 < gm_get m q"
  using gm_get_notin [of q m] by (cases "q \<in> gm_keys m") (auto simp: pos_map_def)

lemma pos_map_entry: "pos_map m \<Longrightarrow> (q, c) \<in> set m \<Longrightarrow> 0 < c"
  by (force simp: pos_map_def gm_keys_def gm_get_in)

lemma pos_map_put: "pos_map m \<Longrightarrow> 0 < v \<Longrightarrow> pos_map (gm_put m q v)"
  by (auto simp: pos_map_def gomap_simps)

lemma pos_map_delete: "pos_map m \<Longrightarrow> pos_map (gm_delete m q)"
  by (auto simp: pos_map_def gomap_simps)

lemma pos_map_Cons:
  "pos_map ((q, c) # m) \<longleftrightarrow> 0 < c \<and> q \<notin> gm_keys m \<and> pos_map m"
  by (auto simp: pos_map_def gm_wf_Cons gm_get_Cons gm_keys_def)

section \<open>Subtracting a bucket\<close>

lemma subtractCounts_get:
  assumes "pos_map m" and "pos_map cs"
    and "\<And>q. gm_get m q \<le> gm_get cs q" and "\<And>q. gm_get cs q \<le> maxInt64"
  shows "pos_map (subtractCounts m cs) \<and>
    (\<forall>q. gm_get (subtractCounts m cs) q = gm_get cs q - gm_get m q)"
  using assms
proof (induction m cs rule: subtractCounts.induct)
  case (2 k c rest cs)
  let ?n = "gm_get cs k - c"
  have c: "0 < c" "k \<notin> gm_keys rest" "pos_map rest"
    using "2.prems"(1) by (auto simp: pos_map_Cons)
  have k0: "gm_get rest k = 0" using c(2) by (rule gm_get_notin)
  have n: "0 \<le> ?n" "?n \<le> maxInt64"
    using "2.prems"(3,4) [of k] c(1) by (auto simp: gm_get_Cons)
  then have w: "wrap64 ?n = ?n" by (intro wrap64_id in_int64_nonneg)
  have le: "gm_get rest q \<le> (if q = k then ?n else gm_get cs q)" for q
    using "2.prems"(3) [of q] n(1) k0 by (auto simp: gm_get_Cons)
  have mx: "(if q = k then ?n else gm_get cs q) \<le> maxInt64" for q
    using "2.prems"(4) [of q] n(2) by auto
  show ?case
  proof (cases "?n \<le> 0")
    case True
    then have z: "?n = 0" using n(1) by simp
    have "pos_map (subtractCounts rest (gm_delete cs k)) \<and>
        (\<forall>q. gm_get (subtractCounts rest (gm_delete cs k)) q =
          gm_get (gm_delete cs k) q - gm_get rest q)"
    proof (rule "2.IH"(1) [OF refl])
      show "gm_get rest q \<le> gm_get (gm_delete cs k) q" for q
        using le [of q] z by (simp add: gomap_simps split: if_splits)
      show "gm_get (gm_delete cs k) q \<le> maxInt64" for q
        using mx [of q] z by (simp add: gomap_simps split: if_splits)
    qed (use True w c(3) "2.prems"(2) pos_map_delete in simp_all)
    then show ?thesis using True w z k0 by (auto simp: gomap_simps gm_get_Cons)
  next
    case False
    have "pos_map (subtractCounts rest (gm_put cs k ?n)) \<and>
        (\<forall>q. gm_get (subtractCounts rest (gm_put cs k ?n)) q =
          gm_get (gm_put cs k ?n) q - gm_get rest q)"
      using "2.IH"(2) [OF refl _ c(3) pos_map_put [OF "2.prems"(2)]] False w le mx
      by (simp add: gomap_simps)
    then show ?thesis using False w k0 by (auto simp: gomap_simps gm_get_Cons)
  qed
qed simp

section \<open>Expiring buckets\<close>

abbreviation bcount :: "bucket \<Rightarrow> string \<Rightarrow> int" where
  "bcount b q \<equiv> gm_get (counts_of b) q"

definition expired_bucket :: "int \<Rightarrow> bucket \<Rightarrow> bool" where
  "expired_bucket cutoff b \<longleftrightarrow>
     bucket_counts b \<noteq> None \<and> unixSecond b \<noteq> 0 \<and> unixSecond b < cutoff"

definition cleared :: "bucket \<Rightarrow> bucket" where
  "cleared b = \<lparr>unixSecond = 0, bucket_counts = map_option (\<lambda>_. []) (bucket_counts b)\<rparr>"

definition expire1 :: "int \<Rightarrow> bucket \<Rightarrow> bucket" where
  "expire1 cutoff b = (if expired_bucket cutoff b then cleared b else b)"

lemma counts_of_cleared [simp]: "counts_of (cleared b) = []" "unixSecond (cleared b) = 0"
  by (cases "bucket_counts b"; simp add: cleared_def counts_of_def)+

lemma clearBucketLocked_eq:
  "clearBucketLocked cs b = (subtractCounts (counts_of b) cs, cleared b)"
  by (simp add: clearBucketLocked_def cleared_def)

lemma sum_bcount_nonneg:
  "\<forall>b\<in>set bs. pos_map (counts_of b) \<Longrightarrow> 0 \<le> (\<Sum>b\<leftarrow>bs. bcount b q)"
  by (induction bs) (auto intro: add_nonneg_nonneg pos_map_nonneg)

lemma expireLoop_spec:
  assumes "\<forall>b\<in>set bs. pos_map (counts_of b)" and "pos_map cs"
    and "\<And>q. (\<Sum>b\<leftarrow>bs. bcount b q) \<le> gm_get cs q" and "\<And>q. gm_get cs q \<le> maxInt64"
    and "expireLoop cutoff bs cs = (bs', cs', ex)"
  shows "bs' = map (expire1 cutoff) bs \<and> pos_map cs' \<and> (ex \<longleftrightarrow> (\<exists>b\<in>set bs. expired_bucket cutoff b)) \<and>
    (ex \<or> cs' = cs) \<and>
    (\<forall>q. gm_get cs' q = gm_get cs q - (\<Sum>b\<leftarrow>bs. bcount b q) + (\<Sum>b\<leftarrow>bs'. bcount b q))"
  using assms
proof (induction bs arbitrary: cs bs' cs' ex)
  case (Cons b bs)
  have pb: "pos_map (counts_of b)" and pbs: "\<forall>b\<in>set bs. pos_map (counts_of b)"
    using Cons.prems(1) by auto
  show ?case
  proof (cases "expired_bucket cutoff b")
    case True
    have sub: "bcount b q \<le> gm_get cs q" for q
      using Cons.prems(3) [of q] sum_bcount_nonneg [OF pbs, of q] by simp
    note s = subtractCounts_get [OF pb Cons.prems(2) sub Cons.prems(4)]
    obtain bs1 ex1 where r: "expireLoop cutoff bs (subtractCounts (counts_of b) cs) = (bs1, cs', ex1)"
        and o: "bs' = cleared b # bs1" "ex = True"
      using True Cons.prems(5)
      by (auto simp: expired_bucket_def clearBucketLocked_eq split: prod.splits)
    have "gm_get (subtractCounts (counts_of b) cs) q \<le> maxInt64" for q
      using s Cons.prems(4) [of q] pos_map_nonneg [OF pb, of q] by simp
    then have "bs1 = map (expire1 cutoff) bs \<and> pos_map cs' \<and>
        (\<forall>q. gm_get cs' q = gm_get (subtractCounts (counts_of b) cs) q
          - (\<Sum>b\<leftarrow>bs. bcount b q) + (\<Sum>b\<leftarrow>bs1. bcount b q))"
      using Cons.IH [OF pbs _ _ _ r] s Cons.prems(3) by (simp add: le_diff_eq add.commute)
    then show ?thesis using s o True by (simp add: expire1_def)
  next
    case False
    then have "\<exists>bs1. expireLoop cutoff bs cs = (bs1, cs', ex) \<and> bs' = b # bs1"
      using Cons.prems(5) by (auto simp: expired_bucket_def split: prod.splits if_splits)
    then obtain bs1 where r: "expireLoop cutoff bs cs = (bs1, cs', ex)" and o: "bs' = b # bs1"
      by blast
    have "(\<Sum>b\<leftarrow>bs. bcount b q) \<le> gm_get cs q" for q
      using Cons.prems(3) [of q] pos_map_nonneg [OF pb, of q] by simp
    then show ?thesis
      using Cons.IH [OF pbs Cons.prems(2) _ Cons.prems(4) r] o False by (auto simp: expire1_def)
  qed
qed simp

section \<open>The invariant\<close>

lemma bucketIndex_mod:
  assumes bc: "0 < bc"
  shows "bucketIndex s bc = s mod bc"
proof (cases "s < 0")
  case True
  define r where "r = (- s) mod bc"
  have "0 \<le> r" unfolding r_def using bc by (rule pos_mod_sign)
  moreover have "s mod bc = (if r = 0 then 0 else bc - r)"
    using zmod_zminus1_eq_if [of "- s" bc] by (simp add: r_def)
  moreover have "go_rem s bc = - r" using True bc by (simp add: go_rem_neg r_def)
  ultimately show ?thesis by (simp add: bucketIndex_def Let_def)
next
  case False
  then show ?thesis using bc pos_mod_sign [OF bc, of s] by (simp add: bucketIndex_def Let_def not_less)
qed

definition config_ok :: "agg_config \<Rightarrow> bool" where
  "config_ok c \<longleftrightarrow> 0 < Window c \<and> 0 < BucketSize c \<and> Window c mod BucketSize c = 0 \<and>
     0 < DefaultLimit c \<and> DefaultLimit c \<le> MaxLimit c \<and> 0 < MaxQueryRunes c \<and>
     0 < TopRefreshInterval c \<and> 0 < AllowedFutureSkew c"

definition shape_ok :: "aggregator \<Rightarrow> bool" where
  "shape_ok a \<longleftrightarrow> config_ok (agg_cfg a) \<and> 0 < bucketCount a \<and>
     bucketCount a * BucketSize (agg_cfg a) = Window (agg_cfg a) \<and>
     length (agg_buckets a) = nat (bucketCount a)"

definition buckets_ok :: "aggregator \<Rightarrow> bool" where
  "buckets_ok a \<longleftrightarrow> (\<forall>i < length (agg_buckets a).
     pos_map (counts_of (agg_buckets a ! i)) \<and>
     (unixSecond (agg_buckets a ! i) \<noteq> 0 \<longrightarrow>
        bucketIndex (unixSecond (agg_buckets a ! i)) (bucketCount a) = int i))"

definition counters_ok :: "int \<Rightarrow> aggregator \<Rightarrow> bool" where
  "counters_ok n a \<longleftrightarrow> pos_map (agg_counters a) \<and>
     (\<forall>q. gm_get (agg_counters a) q = (\<Sum>b\<leftarrow>agg_buckets a. bcount b q)) \<and>
     (\<forall>q. gm_get (agg_counters a) q \<le> n)"

definition cache_ok :: "aggregator \<Rightarrow> bool" where
  "cache_ok a \<longleftrightarrow>
     (\<exists>m. pos_map m \<and> (\<forall>q. gm_get m q \<le> maxInt64) \<and>
        topCache a = top_spec m (MaxLimit (agg_cfg a))) \<and>
     (\<not> dirty a \<longrightarrow> topCache a = top_spec (agg_counters a) (MaxLimit (agg_cfg a)))"

definition base_inv :: "int \<Rightarrow> aggregator \<Rightarrow> bool" where
  "base_inv n a \<longleftrightarrow> shape_ok a \<and> buckets_ok a \<and> counters_ok n a"

definition agg_inv :: "int \<Rightarrow> aggregator \<Rightarrow> bool" where
  "agg_inv n a \<longleftrightarrow> base_inv n a \<and> cache_ok a"

lemma counters_okD:
  assumes "counters_ok n a"
  shows "pos_map (agg_counters a)"
    and "gm_get (agg_counters a) q = (\<Sum>b\<leftarrow>agg_buckets a. bcount b q)"
    and "gm_get (agg_counters a) q \<le> n"
  using assms unfolding counters_ok_def by blast+

lemma buckets_pos: "buckets_ok a \<Longrightarrow> b \<in> set (agg_buckets a) \<Longrightarrow> pos_map (counts_of b)"
  by (auto simp: buckets_ok_def in_set_conv_nth)

lemma sum_list_update:
  fixes f :: "'b \<Rightarrow> int"
  shows "i < length xs \<Longrightarrow> (\<Sum>x\<leftarrow>xs[i := y]. f x) = (\<Sum>x\<leftarrow>xs. f x) - f (xs ! i) + f y"
proof (induction xs arbitrary: i)
  case (Cons x xs)
  then show ?case by (cases i) auto
qed simp

section \<open>Expiration keeps it\<close>

lemma expireLocked_spec:
  assumes "base_inv n a" and "n \<le> maxInt64"
  obtains cs where
    "fst (expireLocked a now) =
       a\<lparr>agg_buckets := map (expire1 (cutoffSecond a now)) (agg_buckets a), agg_counters := cs\<rparr>"
    "snd (expireLocked a now) \<longleftrightarrow> (\<exists>b\<in>set (agg_buckets a). expired_bucket (cutoffSecond a now) b)"
    "pos_map cs" "snd (expireLocked a now) \<or> cs = agg_counters a"
    "\<And>q. gm_get cs q = (\<Sum>b\<leftarrow>map (expire1 (cutoffSecond a now)) (agg_buckets a). bcount b q)"
proof -
  obtain bs cs ex where e: "expireLoop (cutoffSecond a now) (agg_buckets a) (agg_counters a) = (bs, cs, ex)"
    by (metis prod_cases3)
  have pos: "\<forall>b\<in>set (agg_buckets a). pos_map (counts_of b)"
    using assms(1) buckets_pos by (auto simp: base_inv_def)
  have co: "counters_ok n a" using assms(1) by (simp add: base_inv_def)
  note c = counters_okD(1) [OF co] and sum = counters_okD(2) [OF co]
  have mx: "\<And>q. gm_get (agg_counters a) q \<le> maxInt64"
    using counters_okD(3) [OF co] assms(2) order_trans by blast
  have le: "\<And>q. (\<Sum>b\<leftarrow>agg_buckets a. bcount b q) \<le> gm_get (agg_counters a) q" using sum by simp
  note s = expireLoop_spec [OF pos c le mx e]
  show ?thesis using s sum e by (intro that [of cs]) (auto simp: expireLocked_def)
qed

lemma sum_expire1_le:
  "\<forall>b\<in>set bs. pos_map (counts_of b) \<Longrightarrow>
   (\<Sum>b\<leftarrow>map (expire1 c) bs. bcount b q) \<le> (\<Sum>b\<leftarrow>bs. bcount b q)"
  by (induction bs) (auto simp: expire1_def intro: add_mono add_increasing pos_map_nonneg)

lemma expireLocked_inv:
  assumes "base_inv n a" and "n \<le> maxInt64"
  shows "base_inv n (fst (expireLocked a now))"
proof -
  let ?c = "cutoffSecond a now"
  obtain cs where e: "fst (expireLocked a now) =
      a\<lparr>agg_buckets := map (expire1 ?c) (agg_buckets a), agg_counters := cs\<rparr>" "pos_map cs"
      "\<And>q. gm_get cs q = (\<Sum>b\<leftarrow>map (expire1 ?c) (agg_buckets a). bcount b q)"
    using expireLocked_spec [OF assms] by metis
  have b: "buckets_ok a" and sh: "shape_ok a" and co: "counters_ok n a"
    using assms(1) by (auto simp: base_inv_def)
  have "gm_get cs q \<le> n" for q
    using sum_expire1_le [of "agg_buckets a" q ?c] buckets_pos [OF b] e(3) [of q]
      counters_okD(2,3) [OF co, of q] by simp
  then have "counters_ok n (fst (expireLocked a now))" using e by (simp add: counters_ok_def)
  moreover have "buckets_ok (fst (expireLocked a now))"
    using b e(1) by (auto simp: buckets_ok_def expire1_def)
  moreover have "shape_ok (fst (expireLocked a now))" using sh e(1) by (simp add: shape_ok_def)
  ultimately show ?thesis by (simp add: base_inv_def)
qed

section \<open>Adding an event keeps it\<close>

text \<open>\<open>addLocked\<close> in terms of the expired state and the bucket it finds.\<close>

definition found_counts :: "bucket \<Rightarrow> int \<Rightarrow> int gomap" where
  "found_counts b s = (if unixSecond b = s then counts_of b else [])"

definition kept_counters :: "int gomap \<Rightarrow> bucket \<Rightarrow> int \<Rightarrow> int gomap" where
  "kept_counters cs b s = (if unixSecond b = s then cs else subtractCounts (counts_of b) cs)"

definition bump :: "int gomap \<Rightarrow> string \<Rightarrow> int gomap" where
  "bump m q = gm_put m q (wrap64 (gm_get m q + 1))"

lemma addLocked_eq:
  "addLocked a0 now s q =
     (let a = fst (expireLocked a0 now);
          i = nat (bucketIndex s (bucketCount a));
          b = agg_buckets a ! i
      in a\<lparr>agg_buckets := (agg_buckets a)
              [i := \<lparr>unixSecond = s, bucket_counts = Some (bump (found_counts b s) q)\<rparr>],
           agg_counters := bump (kept_counters (agg_counters a) b s) q, dirty := True\<rparr>)"
proof -
  have set_counts: "b\<lparr>bucket_counts := m\<rparr> = \<lparr>unixSecond = unixSecond b, bucket_counts = m\<rparr>"
    for b :: bucket and m by (cases b) simp
  show ?thesis
    unfolding addLocked_def clearBucketLocked_eq Let_def
    by (auto simp: found_counts_def kept_counters_def bump_def set_counts counts_of_def cleared_def
        split: option.splits)
qed

lemma bump_get:
  assumes "pos_map m" and "\<And>q. gm_get m q \<le> n" and "n < maxInt64"
  shows "pos_map (bump m q)" and "gm_get (bump m q) q' = gm_get m q' + (if q' = q then 1 else 0)"
proof -
  have "0 \<le> gm_get m q" and "gm_get m q + 1 \<le> maxInt64"
    using assms(2) [of q] assms(3) pos_map_nonneg [OF assms(1)] by auto
  then have w: "wrap64 (gm_get m q + 1) = gm_get m q + 1" by (intro wrap64_id in_int64_nonneg) auto
  then show "pos_map (bump m q)"
    using assms(1) \<open>0 \<le> gm_get m q\<close> by (simp add: bump_def pos_map_put)
  show "gm_get (bump m q) q' = gm_get m q' + (if q' = q then 1 else 0)"
    using w by (simp add: bump_def gomap_simps)
qed

lemma kept_counters_get:
  assumes inv: "base_inv n a" and n: "n \<le> maxInt64" and b: "b \<in> set (agg_buckets a)"
  shows "pos_map (kept_counters (agg_counters a) b s) \<and>
    (\<forall>q. gm_get (kept_counters (agg_counters a) b s) q =
      gm_get (agg_counters a) q - bcount b q + gm_get (found_counts b s) q)"
proof -
  have co: "counters_ok n a" and bo: "buckets_ok a" using inv by (auto simp: base_inv_def)
  have pb: "pos_map (counts_of b)" using buckets_pos [OF bo b] .
  have "bcount b q \<le> (\<Sum>b\<leftarrow>agg_buckets a. bcount b q)" for q
    using b buckets_pos [OF bo] pos_map_nonneg
    by (intro member_le_sum_list) auto
  then have le: "\<And>q. bcount b q \<le> gm_get (agg_counters a) q" using counters_okD(2) [OF co] by simp
  have mx: "\<And>q. gm_get (agg_counters a) q \<le> maxInt64"
    using counters_okD(3) [OF co] n order_trans by blast
  show ?thesis
    using subtractCounts_get [OF pb counters_okD(1) [OF co] le mx] counters_okD(1) [OF co]
    by (simp add: kept_counters_def found_counts_def)
qed

lemma bucketIndex_bounds:
  assumes "shape_ok a"
  shows "nat (bucketIndex s (bucketCount a)) < length (agg_buckets a)"
  using assms pos_mod_bound [of "bucketCount a" s] pos_mod_sign [of "bucketCount a" s]
  by (simp add: shape_ok_def bucketIndex_mod nat_less_iff)

lemma found_counts_pos: "pos_map (counts_of b) \<Longrightarrow> pos_map (found_counts b s)"
  by (simp add: found_counts_def)

lemma addLocked_inv:
  assumes inv: "base_inv n a0" and n: "n < maxInt64"
  shows "base_inv (n + 1) (addLocked a0 now s q)"
proof -
  define a where "a = fst (expireLocked a0 now)"
  define i where "i = nat (bucketIndex s (bucketCount a))"
  define b where "b = agg_buckets a ! i"
  define b' where "b' = \<lparr>unixSecond = s, bucket_counts = Some (bump (found_counts b s) q)\<rparr>"
  define cs where "cs = kept_counters (agg_counters a) b s"
  have eq: "addLocked a0 now s q =
      a\<lparr>agg_buckets := (agg_buckets a)[i := b'], agg_counters := bump cs q, dirty := True\<rparr>"
    unfolding addLocked_eq Let_def a_def i_def b_def b'_def cs_def by simp
  have inva: "base_inv n a" unfolding a_def using inv n by (intro expireLocked_inv) auto
  then have sh: "shape_ok a" and bo: "buckets_ok a" and co: "counters_ok n a"
    by (auto simp: base_inv_def)
  have i: "i < length (agg_buckets a)" unfolding i_def using sh by (rule bucketIndex_bounds)
  then have bin: "b \<in> set (agg_buckets a)" by (simp add: b_def)
  have pb: "pos_map (counts_of b)" using buckets_pos [OF bo bin] .
  note kept = kept_counters_get [OF inva less_imp_le [OF n] bin, of s, folded cs_def]
  have csle: "gm_get cs q' \<le> n" for q'
    using kept counters_okD(3) [OF co, of q'] pos_map_nonneg [OF pb, of q']
    by (auto simp: found_counts_def)
  have fle: "gm_get (found_counts b s) q' \<le> n" for q'
  proof -
    have "gm_get (found_counts b s) q' \<le> gm_get cs q'"
      using kept counters_okD(1,2) [OF co] member_le_sum_list [of "bcount b q'" "map (\<lambda>b. bcount b q') (agg_buckets a)"]
        bin buckets_pos [OF bo] pos_map_nonneg by auto
    then show ?thesis using csle [of q'] by simp
  qed
  note bf = bump_get [OF found_counts_pos [OF pb, of s] fle n]
  note bc = bump_get [OF conjunct1 [OF kept] csle n]
  have "counters_ok (n + 1) (addLocked a0 now s q)"
  proof -
    have "gm_get (bump cs q) q' = (\<Sum>b\<leftarrow>(agg_buckets a)[i := b']. bcount b q')" for q'
      using bc(2) [of q q'] bf(2) [of q q'] kept counters_okD(2) [OF co, of q'] i
      by (simp add: sum_list_update b'_def counts_of_def b_def)
    moreover have "gm_get (bump cs q) q' \<le> n + 1" for q'
      using bc(2) [of q q'] csle [of q'] by (auto split: if_splits)
    ultimately show ?thesis using bc(1) by (simp add: eq counters_ok_def)
  qed
  moreover have "buckets_ok (addLocked a0 now s q)"
  proof -
    have "counts_of b' = bump (found_counts b s) q" by (simp add: b'_def counts_of_def)
    moreover have "bucketIndex s (bucketCount a) = int i"
      using sh pos_mod_sign [of "bucketCount a" s]
      by (simp add: i_def shape_ok_def bucketIndex_mod)
    ultimately have "pos_map (counts_of ((agg_buckets a)[i := b'] ! k)) \<and>
        (unixSecond ((agg_buckets a)[i := b'] ! k) \<noteq> 0 \<longrightarrow>
          bucketIndex (unixSecond ((agg_buckets a)[i := b'] ! k)) (bucketCount a) = int k)"
      if "k < length (agg_buckets a)" for k
      using that bo bf(1) by (cases "k = i") (simp_all add: buckets_ok_def b'_def)
    then show ?thesis by (simp add: eq buckets_ok_def)
  qed
  moreover have "shape_ok (addLocked a0 now s q)" using sh by (simp add: eq shape_ok_def)
  ultimately show ?thesis by (simp add: base_inv_def)
qed

section \<open>The methods keep it\<close>

lemma expireLocked_frame [simp]:
  "agg_cfg (fst (expireLocked a now)) = agg_cfg a"
  "bucketCount (fst (expireLocked a now)) = bucketCount a"
  "topCache (fst (expireLocked a now)) = topCache a"
  "topGeneratedAt (fst (expireLocked a now)) = topGeneratedAt a"
  "dirty (fst (expireLocked a now)) = dirty a"
  by (simp_all add: expireLocked_def split: prod.split)

lemma addLocked_frame [simp]:
  "agg_cfg (addLocked a now s q) = agg_cfg a"
  "bucketCount (addLocked a now s q) = bucketCount a"
  "topCache (addLocked a now s q) = topCache a"
  "dirty (addLocked a now s q)"
  by (simp_all add: addLocked_eq Let_def)

lemma base_inv_mono: "base_inv n a \<Longrightarrow> n \<le> m \<Longrightarrow> base_inv m a"
  unfolding base_inv_def counters_ok_def by (meson order_trans)

lemma agg_inv_mono: "agg_inv n a \<Longrightarrow> n \<le> m \<Longrightarrow> agg_inv m a"
  by (auto simp: agg_inv_def intro: base_inv_mono)

lemma addLocked_agg_inv:
  assumes "agg_inv n a" and "n < maxInt64"
  shows "agg_inv (n + 1) (addLocked a now s q)"
  using assms addLocked_inv [of n a now s q] by (auto simp: agg_inv_def cache_ok_def)

lemma agg_Add_cases:
  obtains (same) "fst (snd (agg_Add a c now event)) = a"
  | (added) query where "c = None" "validateAndNormalize a event now = Inr (query, False)"
      "fst (snd (agg_Add a c now event)) = addLocked a now (bucketSecond a (ev_Timestamp event)) query"
proof (cases c)
  case None
  consider (err) err where "validateAndNormalize a event now = Inl err"
    | (old) query where "validateAndNormalize a event now = Inr (query, True)"
    | (new) query where "validateAndNormalize a event now = Inr (query, False)"
    by (metis old.sum.exhaust surj_pair)
  then show ?thesis
    using None by cases (auto intro: same added simp: agg_Add_def Let_def)
qed (use same in \<open>simp add: agg_Add_def\<close>)

lemma agg_Add_inv:
  assumes "agg_inv n a" and "n < maxInt64"
  shows "agg_inv (n + 1) (fst (snd (agg_Add a c now event)))"
proof (cases rule: agg_Add_cases [of a c now event])
  case same
  then show ?thesis using assms(1) by (simp add: agg_inv_mono)
next
  case (added query)
  then show ?thesis using addLocked_agg_inv [OF assms] by simp
qed

lemma agg_RebuildTop_inv:
  assumes "agg_inv n a" and "n \<le> maxInt64"
  shows "agg_inv n (fst (snd (agg_RebuildTop a c now elapsed)))"
proof (cases c)
  case None
  define a1 where "a1 = fst (expireLocked a now)"
  define ex where "ex = snd (expireLocked a now)"
  have b: "base_inv n a1" unfolding a1_def using assms by (intro expireLocked_inv) (auto simp: agg_inv_def)
  then have pos: "pos_map (agg_counters a1)" by (simp add: base_inv_def counters_ok_def)
  have same: "ex \<or> agg_counters a1 = agg_counters a"
    using expireLocked_spec [of n a now] assms unfolding a1_def ex_def agg_inv_def
    by (metis (no_types, lifting) aggregator.select_convs(4) aggregator.surjective aggregator.update_convs(3,4))
  have "agg_inv n a1" if "\<not> dirty a1 \<and> \<not> ex"
    using b that same assms(1) by (auto simp: agg_inv_def cache_ok_def a1_def)
  moreover have "\<forall>q. gm_get (agg_counters a1) q \<le> maxInt64"
    using b assms(2) counters_okD(3) order_trans unfolding base_inv_def by blast
  then have "agg_inv n (a1\<lparr>topCache := buildTop (agg_counters a1) (MaxLimit (agg_cfg a1)),
      topGeneratedAt := now, dirty := False\<rparr>)"
    using b pos by (auto simp: agg_inv_def base_inv_def shape_ok_def buckets_ok_def counters_ok_def
        cache_ok_def buildTop_eq)
  ultimately show ?thesis
    using None by (simp add: agg_RebuildTop_def Let_def split_beta flip: a1_def ex_def)
qed (use assms in \<open>simp add: agg_RebuildTop_def\<close>)

lemma agg_New_Inr:
  assumes "agg_New cfg0 now = Inr (a, ms)"
  defines "cfg \<equiv> defaultRest (defaultBucket cfg0)"
  shows "0 < Window cfg0"
    and "go_rem (Window (defaultBucket cfg0)) (BucketSize (defaultBucket cfg0)) = 0"
    and "0 < DefaultLimit (defaultBucket cfg0)"
    and "DefaultLimit (defaultBucket cfg0) \<le> MaxLimit (defaultBucket cfg0)"
    and "0 < go_quot (Window cfg) (BucketSize cfg)"
    and "a = \<lparr>agg_cfg = cfg, bucketCount = go_quot (Window cfg) (BucketSize cfg),
      agg_buckets = replicate (nat (go_quot (Window cfg) (BucketSize cfg)))
        \<lparr>unixSecond = 0, bucket_counts = None\<rparr>,
      agg_counters = [], topCache = [], topGeneratedAt = now, dirty = False\<rparr>"
  using assms unfolding agg_New_def Let_def by (simp_all split: if_splits)

lemma defaultBucket_fields [simp]:
  "Window (defaultBucket c) = Window c" "0 < BucketSize (defaultBucket c)"
  "DefaultLimit (defaultBucket c) = DefaultLimit c" "MaxLimit (defaultBucket c) = MaxLimit c"
  by (simp_all add: defaultBucket_def defaultBucketSize_def)

lemma defaultRest_fields [simp]:
  "Window (defaultRest c) = Window c" "BucketSize (defaultRest c) = BucketSize c"
  "DefaultLimit (defaultRest c) = DefaultLimit c" "MaxLimit (defaultRest c) = MaxLimit c"
  "0 < MaxQueryRunes (defaultRest c)" "0 < TopRefreshInterval (defaultRest c)"
  "0 < AllowedFutureSkew (defaultRest c)"
  by (simp_all add: defaultRest_def Let_def defaultMaxQueryRunes_def)

lemma agg_New_cases:
  assumes "agg_New cfg0 now = Inr (a, ms)"
  shows "config_ok (agg_cfg a)"
    and "bucketCount a = Window (agg_cfg a) div BucketSize (agg_cfg a)" and "0 < bucketCount a"
    and "agg_buckets a = replicate (nat (bucketCount a)) \<lparr>unixSecond = 0, bucket_counts = None\<rparr>"
    and "agg_counters a = []" and "topCache a = []" and "\<not> dirty a" and "topGeneratedAt a = now"
    and "Window (agg_cfg a) = Window cfg0"
  using agg_New_Inr [OF assms] by (simp_all add: config_ok_def)

lemma agg_New_inv:
  assumes "agg_New cfg0 now = Inr (a, ms)"
  shows "agg_inv 0 a"
proof -
  note n = agg_New_cases [OF assms]
  have "bucketCount a * BucketSize (agg_cfg a) = Window (agg_cfg a)"
    using n(1,2) by (simp add: config_ok_def) (metis mod_eq_0_iff_dvd dvd_div_mult_self)
  then have "shape_ok a" using n by (simp add: shape_ok_def)
  moreover have "buckets_ok a" using n(4) by (simp add: buckets_ok_def counts_of_def)
  moreover have "(\<Sum>b\<leftarrow>agg_buckets a. bcount b q) = 0" for q
    using n(4) by (simp add: counts_of_def sum_list_replicate)
  then have "counters_ok 0 a" using n(5) by (simp add: counters_ok_def)
  moreover have "cache_ok a"
    using n(5,6) by (auto simp: cache_ok_def top_spec_def positive_items_def intro: exI [of _ "[]"])
  ultimately show ?thesis by (simp add: agg_inv_def base_inv_def)
qed

section \<open>Sequences of operations\<close>

datatype agg_op = OpAdd ctx gotime search_event | OpRebuild ctx gotime duration

fun agg_step :: "aggregator \<Rightarrow> agg_op \<Rightarrow> aggregator" where
  "agg_step a (OpAdd c now event) = fst (snd (agg_Add a c now event))"
| "agg_step a (OpRebuild c now elapsed) = fst (snd (agg_RebuildTop a c now elapsed))"

text \<open>The state with the number of operations so far.\<close>

definition counted_step :: "aggregator \<times> int \<Rightarrow> agg_op \<Rightarrow> aggregator \<times> int" where
  "counted_step s op = (agg_step (fst s) op, snd s + 1)"

definition counted_inv :: "aggregator \<times> int \<Rightarrow> bool" where
  "counted_inv s \<longleftrightarrow> agg_inv (snd s) (fst s)"

definition counted_pre :: "aggregator \<times> int \<Rightarrow> agg_op \<Rightarrow> bool" where
  "counted_pre s op \<longleftrightarrow> snd s < maxInt64"

interpretation agg_run: run_invariant counted_step counted_inv counted_pre
proof
  fix s op
  assume inv: "counted_inv s" and "counted_pre s op"
  then have n: "snd s < maxInt64" by (simp add: counted_pre_def)
  show "counted_inv (counted_step s op)"
  proof (cases op)
    case (OpAdd c now event)
    then show ?thesis using inv n agg_Add_inv by (simp add: counted_inv_def counted_step_def)
  next
    case (OpRebuild c now elapsed)
    have "agg_inv (snd s) (fst (snd (agg_RebuildTop (fst s) c now elapsed)))"
      using inv n by (intro agg_RebuildTop_inv) (auto simp: counted_inv_def)
    then show ?thesis
      using OpRebuild by (auto simp: counted_inv_def counted_step_def intro: agg_inv_mono)
  qed
qed

lemma foldl_counted_step:
  "foldl counted_step (a, k) ops = (foldl agg_step a ops, k + int (length ops))"
  by (induction ops arbitrary: a k) (auto simp: counted_step_def)

lemma counted_run_ok:
  "k + int (length ops) \<le> maxInt64 \<Longrightarrow> run_ok counted_step counted_pre (a, k) ops"
  by (induction ops arbitrary: a k) (auto simp: counted_step_def counted_pre_def)

text \<open>
  C3: the aggregator's invariant holds in every reachable state. After \<open>New\<close> succeeds, any sequence of
  \<open>Add\<close> and \<open>RebuildTop\<close> calls, with any contexts, any clock readings in any order, any events, and
  fewer than \<open>2 ^ 63\<close> of them, leaves a state in which every global counter is the sum of the counts of
  that query over all buckets, no counter or bucket count is zero or negative, each bucket only holds a
  second of its own index, and a cache that is not dirty is the Top-N of the counters.
\<close>

theorem agg_reachable_inv:
  assumes "agg_New cfg0 now0 = Inr (a, ms)" and "int (length ops) \<le> maxInt64"
  shows "agg_inv (int (length ops)) (foldl agg_step a ops)"
proof -
  have "counted_inv (foldl counted_step (a, 0) ops)"
    using agg_New_inv [OF assms(1)] assms(2)
    by (intro agg_run.run_inv counted_run_ok) (simp_all add: counted_inv_def)
  then show ?thesis by (simp add: foldl_counted_step counted_inv_def)
qed

text \<open>A configuration for concrete runs: a window of \<open>w\<close> one-second buckets, the other settings as in
  the repository's tests.\<close>

definition sample_cfg :: "int \<Rightarrow> agg_config" where
  "sample_cfg w = \<lparr>Window = w * second, BucketSize = second, DefaultLimit = 10, MaxLimit = 10,
     TopRefreshInterval = 3600 * second, MaxQueryRunes = 64, AllowedFutureSkew = 5 * second,
     HasMetrics = False\<rparr>"

definition sample_event :: "string \<Rightarrow> int \<Rightarrow> search_event" where
  "sample_event q s = \<lparr>ev_Query = q, ev_UserID = [], ev_SessionID = [], ev_IP = [],
     ev_Timestamp = at_unix s\<rparr>"

definition sample_agg :: "int \<Rightarrow> gotime \<Rightarrow> aggregator" where
  "sample_agg w now = \<lparr>agg_cfg = sample_cfg w, bucketCount = w,
     agg_buckets = replicate (nat w) \<lparr>unixSecond = 0, bucket_counts = None\<rparr>,
     agg_counters = [], topCache = [], topGeneratedAt = now, dirty = False\<rparr>"

lemma sample_New: "0 < w \<Longrightarrow> agg_New (sample_cfg w) now = Inr (sample_agg w now, [])"
  by (simp add: agg_New_def sample_cfg_def sample_agg_def defaultBucket_def defaultRest_def Let_def
      setWindowMetrics_def emit_def)

theorem agg_reachable_inv_witness:
  "agg_New (sample_cfg 3) (at_unix 1000) = Inr (sample_agg 3 (at_unix 1000), []) \<and>
   agg_inv 2 (foldl agg_step (sample_agg 3 (at_unix 1000))
     [OpAdd None (at_unix 1000) (sample_event ''tea'' 999), OpRebuild None (at_unix 1001) 7])"
proof -
  have "agg_New (sample_cfg 3) (at_unix 1000) = Inr (sample_agg 3 (at_unix 1000), [])"
    by (rule sample_New) simp
  then show ?thesis
    using agg_reachable_inv [of "sample_cfg 3" "at_unix 1000" "sample_agg 3 (at_unix 1000)" "[]"
        "[OpAdd None (at_unix 1000) (sample_event ''tea'' 999), OpRebuild None (at_unix 1001) 7]"]
    by simp
qed

lemma agg_New_ok:
  assumes "0 < Window cfg" and "Window cfg mod BucketSize (defaultBucket cfg) = 0"
    and "0 < DefaultLimit cfg" and "DefaultLimit cfg \<le> MaxLimit cfg"
  shows "\<exists>r. agg_New cfg now = Inr r"
proof -
  let ?w = "Window cfg" and ?b = "BucketSize (defaultBucket cfg)"
  have "?b \<le> ?w"
    using assms(1,2) by (metis defaultBucket_fields(2) linorder_not_le mod_pos_pos_trivial not_less less_imp_le)
  then have "0 < ?w div ?b" using pos_imp_zdiv_pos_iff [of ?b ?w] by simp
  then show ?thesis using assms by (simp add: agg_New_def Let_def)
qed

text \<open>
  \<open>New\<close> succeeds exactly on the configurations it documents: a positive window that is a multiple
  of the bucket size (one second if none is given), a positive default limit, and a maximum limit not
  below it; the unreachable check of the bucket count adds nothing.
\<close>

lemma agg_New_succeeds_iff:
  "(\<exists>r. agg_New cfg now = Inr r) \<longleftrightarrow>
    0 < Window cfg \<and> Window cfg mod BucketSize (defaultBucket cfg) = 0 \<and>
    0 < DefaultLimit cfg \<and> DefaultLimit cfg \<le> MaxLimit cfg"
proof
  assume "\<exists>r. agg_New cfg now = Inr r"
  then obtain a ms where "agg_New cfg now = Inr (a, ms)" by auto
  note n = agg_New_Inr [OF this]
  show "0 < Window cfg \<and> Window cfg mod BucketSize (defaultBucket cfg) = 0 \<and>
      0 < DefaultLimit cfg \<and> DefaultLimit cfg \<le> MaxLimit cfg"
    using n(1-4) by simp
next
  assume "0 < Window cfg \<and> Window cfg mod BucketSize (defaultBucket cfg) = 0 \<and>
    0 < DefaultLimit cfg \<and> DefaultLimit cfg \<le> MaxLimit cfg"
  then show "\<exists>r. agg_New cfg now = Inr r" by (intro agg_New_ok) auto
qed

end
