(* ===== verification/Aggregator_Window.thy ===== *)
theory Aggregator_Window
  imports Aggregator_Inv
begin

text \<open>
  The abstract specification of the aggregator: the window is a multiset of (second, query) pairs, one
  for every counted event. Expiration removes the pairs whose second is too old, \<open>Add\<close> also removes the
  pairs whose second shares the slot of the new one, then adds the new pair; the ring of buckets and
  the counters implement exactly that. When the events arrive on time the multiset is the set of
  accepted events of the last \<open>bucketCount\<close> seconds, so \<open>GetTop\<close> is the exact Top-N.
\<close>

section \<open>The abstraction\<close>

fun counts_mset :: "int \<Rightarrow> int gomap \<Rightarrow> (int \<times> string) multiset" where
  "counts_mset s [] = {#}"
| "counts_mset s ((q, c) # m) = replicate_mset (nat c) (s, q) + counts_mset s m"

definition bucket_mset :: "bucket \<Rightarrow> (int \<times> string) multiset" where
  "bucket_mset b = counts_mset (unixSecond b) (counts_of b)"

definition window :: "aggregator \<Rightarrow> (int \<times> string) multiset" where
  "window a = (\<Sum>b\<leftarrow>agg_buckets a. bucket_mset b)"

text \<open>A non-empty bucket sits at the index of its second; unlike \<open>buckets_ok\<close> this includes second 0.\<close>

definition slots_ok :: "aggregator \<Rightarrow> bool" where
  "slots_ok a \<longleftrightarrow> (\<forall>i < length (agg_buckets a). counts_of (agg_buckets a ! i) \<noteq> [] \<longrightarrow>
     bucketIndex (unixSecond (agg_buckets a ! i)) (bucketCount a) = int i)"

lemma count_counts_mset:
  assumes "gm_wf m"
  shows "count (counts_mset s m) (s', q) = (if s' = s then nat (gm_get m q) else 0)"
  using assms
proof (induction s m rule: counts_mset.induct)
  case (2 s k c m)
  then have "k \<notin> gm_keys m" "gm_wf m" by (auto simp: gm_wf_Cons)
  then show ?case using "2.IH" gm_get_notin [of k m] by (auto simp: gm_get_Cons)
qed simp

lemma set_counts_mset: "x \<in># counts_mset s m \<Longrightarrow> fst x = s \<and> m \<noteq> []"
  by (induction s m rule: counts_mset.induct) (auto split: if_splits)

lemma bucket_mset_second: "x \<in># bucket_mset b \<Longrightarrow> fst x = unixSecond b \<and> counts_of b \<noteq> []"
  unfolding bucket_mset_def by (rule set_counts_mset)

lemma bucket_mset_cleared [simp]: "bucket_mset (cleared b) = {#}"
  by (simp add: bucket_mset_def)

lemma filter_mset_sum_list: "filter_mset P (\<Sum>x\<leftarrow>xs. f x) = (\<Sum>x\<leftarrow>xs. filter_mset P (f x))"
  by (induction xs) auto

lemma in_window: "x \<in># window a \<longleftrightarrow> (\<exists>b\<in>set (agg_buckets a). x \<in># bucket_mset b)"
proof -
  have "x \<in># (\<Sum>b\<leftarrow>bs. bucket_mset b) \<longleftrightarrow> (\<exists>b\<in>set bs. x \<in># bucket_mset b)" for bs
    by (induction bs) auto
  then show ?thesis by (simp add: window_def)
qed

lemma size_filter_counts_mset:
  assumes "pos_map m"
  shows "int (size (filter_mset (\<lambda>x. snd x = q) (counts_mset s m))) = gm_get m q"
  using assms
proof (induction s m rule: counts_mset.induct)
  case (2 s k c m)
  then have c: "0 < c" "k \<notin> gm_keys m" "pos_map m" by (auto simp: pos_map_Cons)
  have "filter_mset (\<lambda>x. snd x = q) (replicate_mset (nat c) (s, k)) =
      (if k = q then replicate_mset (nat c) (s, k) else {#})"
    by (induction "nat c") (auto simp: filter_mset_eq_conv)
  then show ?case using 2 c gm_get_notin [of k m] by (auto simp: gm_get_Cons)
qed simp

text \<open>What the counters say is the number of counted events with that query.\<close>

lemma counters_window:
  assumes "base_inv n a"
  shows "gm_get (agg_counters a) q = int (size (filter_mset (\<lambda>x. snd x = q) (window a)))"
proof -
  have pos: "\<forall>b\<in>set (agg_buckets a). pos_map (counts_of b)"
    using assms buckets_pos by (auto simp: base_inv_def)
  have "(\<Sum>b\<leftarrow>bs. bcount b q) = int (size (filter_mset (\<lambda>x. snd x = q) (\<Sum>b\<leftarrow>bs. bucket_mset b)))"
    if "\<forall>b\<in>set bs. pos_map (counts_of b)" for bs
    using that by (induction bs) (simp_all add: bucket_mset_def size_filter_counts_mset)
  then show ?thesis
    using pos assms counters_okD(2) [of n a q] by (simp add: window_def base_inv_def)
qed

section \<open>The operations on the abstract window\<close>

text \<open>A pair survives expiration. Second 0 marks an unused bucket, so it never expires.\<close>

definition live :: "int \<Rightarrow> int \<times> string \<Rightarrow> bool" where
  "live cutoff x \<longleftrightarrow> fst x = 0 \<or> cutoff \<le> fst x"

text \<open>A pair survives the use of the slot of second \<open>s\<close>.\<close>

definition same_slot_only :: "int \<Rightarrow> int \<Rightarrow> int \<times> string \<Rightarrow> bool" where
  "same_slot_only n s x \<longleftrightarrow> (fst x mod n = s mod n \<longrightarrow> fst x = s)"

definition win_expire :: "int \<Rightarrow> (int \<times> string) multiset \<Rightarrow> (int \<times> string) multiset" where
  "win_expire cutoff w = filter_mset (live cutoff) w"

definition win_add ::
  "int \<Rightarrow> int \<Rightarrow> int \<Rightarrow> string \<Rightarrow> (int \<times> string) multiset \<Rightarrow> (int \<times> string) multiset" where
  "win_add n cutoff s q w =
     add_mset (s, q) (filter_mset (same_slot_only n s) (win_expire cutoff w))"

lemma bucket_mset_expire1: "bucket_mset (expire1 c b) = filter_mset (live c) (bucket_mset b)"
proof (cases "expired_bucket c b")
  case True
  then have "\<not> live c x" if "x \<in># bucket_mset b" for x
    using bucket_mset_second [OF that] by (auto simp: live_def expired_bucket_def)
  then have "filter_mset (live c) (bucket_mset b) = {#}" by (simp add: filter_mset_eq_conv)
  then show ?thesis using True by (simp add: expire1_def)
next
  case False
  have "live c x" if "x \<in># bucket_mset b" for x
    using bucket_mset_second [OF that] False
    by (auto simp: live_def expired_bucket_def counts_of_def split: option.splits)
  then have "filter_mset (live c) (bucket_mset b) = bucket_mset b" by (simp add: filter_mset_eq_conv)
  then show ?thesis using False by (simp add: expire1_def)
qed

lemma window_expire:
  assumes "base_inv n a" and "n \<le> maxInt64"
  shows "window (fst (expireLocked a now)) = win_expire (cutoffSecond a now) (window a)"
proof -
  obtain cs where "fst (expireLocked a now) =
      a\<lparr>agg_buckets := map (expire1 (cutoffSecond a now)) (agg_buckets a), agg_counters := cs\<rparr>"
    using expireLocked_spec [OF assms] by metis
  then show ?thesis
    by (simp add: window_def win_expire_def filter_mset_sum_list bucket_mset_expire1 o_def)
qed

lemma slots_expire:
  assumes "base_inv n a" and "n \<le> maxInt64" and "slots_ok a"
  shows "slots_ok (fst (expireLocked a now))"
proof -
  obtain cs where "fst (expireLocked a now) =
      a\<lparr>agg_buckets := map (expire1 (cutoffSecond a now)) (agg_buckets a), agg_counters := cs\<rparr>"
    using expireLocked_spec [OF assms(1,2)] by metis
  then show ?thesis using assms(3) by (auto simp: slots_ok_def expire1_def)
qed

text \<open>The bucket that \<open>Add\<close> uses loses its pairs unless they are of the same second.\<close>

lemma bucket_mset_found:
  "counts_mset s (found_counts b s) =
   (if unixSecond b = s then bucket_mset b else {#})"
  by (simp add: found_counts_def bucket_mset_def)

lemma counts_mset_bump:
  assumes "pos_map m" and "\<And>q. gm_get m q \<le> n" and "n < maxInt64"
  shows "counts_mset s (bump m q) = add_mset (s, q) (counts_mset s m)"
proof (rule multiset_eqI)
  fix x :: "int \<times> string"
  obtain s' q' where x: "x = (s', q')" by fastforce
  have "gm_wf m" and "gm_wf (bump m q)"
    using assms(1) bump_get(1) [OF assms, of q] by (auto simp: pos_map_def)
  then show "count (counts_mset s (bump m q)) x = count (add_mset (s, q) (counts_mset s m)) x"
    unfolding x using bump_get(2) [OF assms, of q q'] pos_map_nonneg [OF assms(1), of q']
    by (auto simp: count_counts_mset Suc_nat_eq_nat_zadd1)
qed

lemma sum_list_update_mset:
  fixes xs :: "'a multiset list"
  shows "i < length xs \<Longrightarrow> sum_list (xs[i := y]) + z = y + sum_list (xs[i := z])"
proof (induction xs arbitrary: i)
  case (Cons x xs)
  then show ?case by (cases i) (auto simp: ac_simps)
qed simp

text \<open>Clearing the slot in the ring is the filter on the window.\<close>

lemma slot_filter:
  assumes sl: "slots_ok a" and bc: "0 < bucketCount a" and i: "int i = s mod bucketCount a"
    and len: "i < length (agg_buckets a)"
  shows "(\<Sum>b\<leftarrow>(agg_buckets a)[i := b']. bucket_mset b) +
      (if unixSecond (agg_buckets a ! i) = s then bucket_mset (agg_buckets a ! i) else {#}) =
    bucket_mset b' + filter_mset (same_slot_only (bucketCount a) s) (window a)"
proof -
  let ?bs = "agg_buckets a" and ?P = "same_slot_only (bucketCount a) s"
  have at: "fst x mod bucketCount a = int k" if "k < length ?bs" "x \<in># bucket_mset (?bs ! k)" for k x
    using that bucket_mset_second [OF that(2)] sl bc by (simp add: slots_ok_def bucketIndex_mod)
  have other: "filter_mset ?P (bucket_mset (?bs ! k)) = bucket_mset (?bs ! k)"
    if "k < length ?bs" "k \<noteq> i" for k
    using at [OF that(1)] that(2) i by (simp add: filter_mset_eq_conv same_slot_only_def)
  have own: "filter_mset ?P (bucket_mset (?bs ! i)) =
      (if unixSecond (?bs ! i) = s then bucket_mset (?bs ! i) else {#})"
    using at [OF len] i bucket_mset_second [of _ "?bs ! i"]
    by (auto simp: filter_mset_eq_conv same_slot_only_def)
  have "map (\<lambda>b. filter_mset ?P (bucket_mset b)) ?bs =
      (map bucket_mset ?bs)[i := filter_mset ?P (bucket_mset (?bs ! i))]"
    using other len by (intro nth_equalityI) (auto simp: nth_list_update)
  then have "filter_mset ?P (window a) =
      sum_list ((map bucket_mset ?bs)[i := filter_mset ?P (bucket_mset (?bs ! i))])"
    by (simp add: window_def filter_mset_sum_list)
  then show ?thesis unfolding own using len by (simp add: map_update sum_list_update_mset)
qed

lemma bcount_le:
  assumes "base_inv n a" and "b \<in> set (agg_buckets a)"
  shows "bcount b q \<le> n"
proof -
  have bo: "buckets_ok a" and co: "counters_ok n a" using assms(1) by (auto simp: base_inv_def)
  have "bcount b q \<le> (\<Sum>b\<leftarrow>agg_buckets a. bcount b q)"
    using assms(2) buckets_pos [OF bo] pos_map_nonneg by (intro member_le_sum_list) auto
  then show ?thesis using counters_okD(2,3) [OF co, of q] by simp
qed

text \<open>The critical section of \<open>Add\<close> refines \<open>win_add\<close>.\<close>

lemma addLocked_parts:
  fixes now s q
  assumes "base_inv n a0" and "n < maxInt64" and "slots_ok a0"
  defines "a \<equiv> fst (expireLocked a0 now)"
  defines "i \<equiv> nat (bucketIndex s (bucketCount a0))"
  defines "b' \<equiv> \<lparr>unixSecond = s, bucket_counts = Some (bump (found_counts (agg_buckets a ! i) s) q)\<rparr>"
  shows "agg_buckets (addLocked a0 now s q) = (agg_buckets a)[i := b']"
    and "i < length (agg_buckets a)" and "int i = s mod bucketCount a0" and "0 < bucketCount a0"
    and "slots_ok a" and "base_inv n a"
    and "bucket_mset b' = add_mset (s, q) (counts_mset s (found_counts (agg_buckets a ! i) s))"
proof -
  show inv: "base_inv n a" unfolding a_def using assms by (intro expireLocked_inv) auto
  show "slots_ok a" unfolding a_def using assms by (intro slots_expire [of n]) auto
  have sh: "shape_ok a" and bo: "buckets_ok a" and co: "counters_ok n a"
    using inv by (auto simp: base_inv_def)
  have bc: "bucketCount a = bucketCount a0" by (simp add: a_def)
  show pos: "0 < bucketCount a0" using sh bc by (simp add: shape_ok_def)
  show i: "i < length (agg_buckets a)"
    using bucketIndex_bounds [OF sh, of s] bc by (simp add: i_def)
  show "int i = s mod bucketCount a0" using pos by (simp add: i_def bucketIndex_mod)
  show "agg_buckets (addLocked a0 now s q) = (agg_buckets a)[i := b']"
    by (simp add: addLocked_eq Let_def a_def i_def b'_def)
  have bin: "agg_buckets a ! i \<in> set (agg_buckets a)" using i by simp
  then have pb: "pos_map (counts_of (agg_buckets a ! i))" by (rule buckets_pos [OF bo])
  have "bcount (agg_buckets a ! i) q' \<le> n" for q' using inv bin by (rule bcount_le)
  moreover have "0 \<le> n"
    using counters_okD(1,3) [OF co] pos_map_nonneg order_trans by blast
  ultimately have "gm_get (found_counts (agg_buckets a ! i) s) q' \<le> n" for q'
    by (simp add: found_counts_def)
  then show "bucket_mset b' = add_mset (s, q) (counts_mset s (found_counts (agg_buckets a ! i) s))"
    using counts_mset_bump [OF found_counts_pos [OF pb] _ assms(2)]
    by (simp add: bucket_mset_def b'_def counts_of_def)
qed

lemma window_addLocked:
  assumes "base_inv n a" and "n < maxInt64" and "slots_ok a"
  shows "window (addLocked a now s q) = win_add (bucketCount a) (cutoffSecond a now) s q (window a)"
    and "slots_ok (addLocked a now s q)"
proof -
  note p = addLocked_parts [OF assms]
  let ?a = "fst (expireLocked a now)" and ?i = "nat (bucketIndex s (bucketCount a))"
  let ?f = "counts_mset s (found_counts (agg_buckets ?a ! ?i) s)"
  have "window (addLocked a now s q) + ?f =
      add_mset (s, q) ?f + filter_mset (same_slot_only (bucketCount a) s) (window ?a)"
    using slot_filter [where a = ?a and i = ?i and s = s] p(2-5)
    by (simp add: window_def [of "addLocked a now s q"] p(1,7) bucket_mset_found)
  then show "window (addLocked a now s q) =
      win_add (bucketCount a) (cutoffSecond a now) s q (window a)"
    using window_expire [OF assms(1) less_imp_le [OF assms(2)], of now] by (simp add: win_add_def)
  have ix: "bucketIndex s (bucketCount a) = int ?i" using p(3,4) by (simp add: bucketIndex_mod)
  show "slots_ok (addLocked a now s q)"
    unfolding slots_ok_def p(1)
  proof (intro allI impI)
    fix k
    let ?bs = "(agg_buckets ?a)[?i := \<lparr>unixSecond = s,
      bucket_counts = Some (bump (found_counts (agg_buckets ?a ! ?i) s) q)\<rparr>]"
    assume "k < length ?bs" and "counts_of (?bs ! k) \<noteq> []"
    then show "bucketIndex (unixSecond (?bs ! k)) (bucketCount (addLocked a now s q)) = int k"
      using p(5) [of now] ix by (cases "k = ?i") (auto simp: slots_ok_def)
  qed
qed

section \<open>The specification of the aggregator\<close>

text \<open>
  What \<open>Add\<close> promises to count: an event with a timestamp, not more than the allowed skew in the future
  and not older than the window, whose query the normaliser accepts, under its normalised query and
  the start of its bucket.
\<close>

definition event_query :: "agg_config \<Rightarrow> gotime \<Rightarrow> search_event \<Rightarrow> string option" where
  "event_query cfg now event =
     (let t = ev_Timestamp event
      in if t \<noteq> 0 \<and> now - Window cfg \<le> t \<and> t \<le> now + AllowedFutureSkew cfg
         then (case NormalizeQuery (ev_Query event) (MaxQueryRunes cfg) of
                 Inl _ \<Rightarrow> None | Inr q \<Rightarrow> Some q)
         else None)"

record win_state =
  ws_cfg :: agg_config
  ws_count :: int
  ws_window :: "(int \<times> string) multiset"

definition ws_second :: "win_state \<Rightarrow> gotime \<Rightarrow> int" where
  "ws_second w t = time_Unix (time_Truncate t (BucketSize (ws_cfg w)))"

definition ws_cutoff :: "win_state \<Rightarrow> gotime \<Rightarrow> int" where
  "ws_cutoff w now = ws_second w now - ws_count w + 1"

fun win_step :: "win_state \<Rightarrow> agg_op \<Rightarrow> win_state" where
  "win_step w (OpAdd c now event) =
     (case (c, event_query (ws_cfg w) now event) of
        (None, Some q) \<Rightarrow>
          w\<lparr>ws_window := win_add (ws_count w) (ws_cutoff w now)
              (ws_second w (ev_Timestamp event)) q (ws_window w)\<rparr>
      | _ \<Rightarrow> w)"
| "win_step w (OpRebuild c now elapsed) =
     (case c of None \<Rightarrow> w\<lparr>ws_window := win_expire (ws_cutoff w now) (ws_window w)\<rparr> | Some _ \<Rightarrow> w)"

definition win_of :: "aggregator \<Rightarrow> win_state" where
  "win_of a = \<lparr>ws_cfg = agg_cfg a, ws_count = bucketCount a, ws_window = window a\<rparr>"

lemma validateAndNormalize_accepts:
  "validateAndNormalize a event now = Inr (q, False) \<longleftrightarrow> event_query (agg_cfg a) now event = Some q"
  by (auto simp: validateAndNormalize_def event_query_def time_defs Let_def split: sum.splits)

lemma ws_of [simp]:
  "ws_second (win_of a) t = bucketSecond a t" "ws_cutoff (win_of a) t = cutoffSecond a t"
  "ws_cfg (win_of a) = agg_cfg a" "ws_count (win_of a) = bucketCount a"
  "ws_window (win_of a) = window a"
  by (simp_all add: ws_second_def ws_cutoff_def cutoffSecond_def bucketSecond_def win_of_def time_UTC_def)

lemma agg_Add_state:
  "fst (snd (agg_Add a c now event)) =
     (case (c, event_query (agg_cfg a) now event) of
        (None, Some q) \<Rightarrow> addLocked a now (bucketSecond a (ev_Timestamp event)) q
      | _ \<Rightarrow> a)"
proof (cases c)
  case None
  show ?thesis
  proof (cases "event_query (agg_cfg a) now event")
    case (Some q)
    then have "validateAndNormalize a event now = Inr (q, False)"
      by (simp add: validateAndNormalize_accepts)
    then show ?thesis using None Some by (simp add: agg_Add_def Let_def)
  next
    case no: None
    then show ?thesis
      using None validateAndNormalize_accepts [of a event now]
      by (cases rule: agg_Add_cases [of a c now event]) auto
  qed
qed (simp add: agg_Add_def)

lemma agg_RebuildTop_state:
  "c = None \<Longrightarrow> agg_buckets (fst (snd (agg_RebuildTop a c now elapsed))) = agg_buckets (fst (expireLocked a now))"
  "c = None \<Longrightarrow> agg_counters (fst (snd (agg_RebuildTop a c now elapsed))) = agg_counters (fst (expireLocked a now))"
  "c \<noteq> None \<Longrightarrow> fst (snd (agg_RebuildTop a c now elapsed)) = a"
  "agg_cfg (fst (snd (agg_RebuildTop a c now elapsed))) = agg_cfg a"
  "bucketCount (fst (snd (agg_RebuildTop a c now elapsed))) = bucketCount a"
  by (cases c; simp add: agg_RebuildTop_def Let_def split_beta)+

definition sim_inv :: "aggregator \<times> int \<Rightarrow> bool" where
  "sim_inv s \<longleftrightarrow> counted_inv s \<and> slots_ok (fst s)"

lemma sim_step:
  assumes "sim_inv s" and "counted_pre s op"
  shows "win_of (agg_step (fst s) op) = win_step (win_of (fst s)) op" and "slots_ok (agg_step (fst s) op)"
proof -
  obtain a n where s: "s = (a, n)" by fastforce
  have inv: "base_inv n a" "n < maxInt64" "slots_ok a"
    using assms by (auto simp: s sim_inv_def counted_inv_def agg_inv_def counted_pre_def)
  note ad = window_addLocked [OF inv] and ex = window_expire [OF inv(1) less_imp_le [OF inv(2)]]
    and sl = slots_expire [OF inv(1) less_imp_le [OF inv(2)] inv(3)]
  have "win_of (agg_step a op) = win_step (win_of a) op \<and> slots_ok (agg_step a op)"
  proof (cases op)
    case (OpAdd c now event)
    then show ?thesis
      using ad inv(3) by (auto simp: agg_Add_state win_of_def [of "addLocked _ _ _ _"] win_of_def [of a]
          ws_second_def ws_cutoff_def bucketSecond_def cutoffSecond_def time_UTC_def
          split: option.splits)
  next
    case (OpRebuild c now elapsed)
    then show ?thesis
      using ex [of now] sl [of now] inv(3)
      by (cases c) (auto simp: agg_RebuildTop_state win_of_def ws_second_def ws_cutoff_def
          bucketSecond_def cutoffSecond_def time_UTC_def slots_ok_def window_def)
  qed
  then show "win_of (agg_step (fst s) op) = win_step (win_of (fst s)) op"
    and "slots_ok (agg_step (fst s) op)" by (simp_all add: s)
qed

interpretation agg_sim:
  run_refinement counted_step sim_inv counted_pre "\<lambda>s. win_of (fst s)" win_step
proof
  fix s op
  assume a: "sim_inv s" "counted_pre s op"
  then have "counted_inv (counted_step s op)" by (intro agg_run.step_inv) (simp add: sim_inv_def)
  then show "sim_inv (counted_step s op)"
    using sim_step(2) [OF a] by (simp add: sim_inv_def counted_step_def)
  show "win_of (fst (counted_step s op)) = win_step (win_of (fst s)) op"
    using sim_step(1) [OF a] by (simp add: counted_step_def)
qed

lemma agg_New_sim:
  assumes "agg_New cfg0 now0 = Inr (a, ms)"
  shows "sim_inv (a, 0)" and "window a = {#}"
proof -
  note n = agg_New_cases [OF assms]
  show "sim_inv (a, 0)"
    using agg_New_inv [OF assms] n(4) by (simp add: sim_inv_def counted_inv_def slots_ok_def counts_of_def)
  have "\<forall>b\<in>set (agg_buckets a). bucket_mset b = {#}"
    unfolding n(4) by (simp add: bucket_mset_def counts_of_def)
  then show "window a = {#}" by (metis in_window multiset_nonemptyE empty_iff set_mset_empty)
qed

lemma agg_run_window:
  assumes "agg_New cfg0 now0 = Inr (a, ms)" and "int (length ops) \<le> maxInt64"
  shows "sim_inv (foldl agg_step a ops, int (length ops))"
    and "win_of (foldl agg_step a ops) = foldl win_step (win_of a) ops"
  using agg_sim.run_inv [OF agg_New_sim(1) [OF assms(1)] counted_run_ok]
    agg_sim.run_refines [OF agg_New_sim(1) [OF assms(1)] counted_run_ok] assms(2)
  by (simp_all add: foldl_counted_step)

text \<open>
  C2: the ring of buckets with its counters refines the abstract window. After \<open>New\<close> and any sequence of
  operations, the multiset of counted events is the one the specification computes from the same
  operations (each \<open>Add\<close> of an acceptable event removes the expired seconds and the seconds that share
  its slot and adds one pair, each \<open>RebuildTop\<close> removes the expired seconds, everything else changes
  nothing), and the counter of every query is its number of pairs in that multiset.
\<close>

theorem agg_refines_window:
  assumes "agg_New cfg0 now0 = Inr (a, ms)" and "int (length ops) \<le> maxInt64"
  defines "w \<equiv> foldl win_step \<lparr>ws_cfg = agg_cfg a, ws_count = bucketCount a, ws_window = {#}\<rparr> ops"
  shows "window (foldl agg_step a ops) = ws_window w \<and>
    gm_get (agg_counters (foldl agg_step a ops)) q =
      int (size (filter_mset (\<lambda>x. snd x = q) (ws_window w)))"
proof -
  note r = agg_run_window [OF assms(1,2)]
  have "w = win_of (foldl agg_step a ops)"
    using r(2) agg_New_sim(2) [OF assms(1)] by (simp add: w_def win_of_def [of a])
  moreover have "base_inv (int (length ops)) (foldl agg_step a ops)"
    using r(1) by (simp add: sim_inv_def counted_inv_def agg_inv_def)
  ultimately show ?thesis using counters_window by simp
qed

theorem agg_refines_window_witness:
  "gm_get (agg_counters (foldl agg_step (sample_agg 3 (at_unix 1000))
     [OpAdd None (at_unix 1000) (sample_event ''tea'' 999),
      OpAdd None (at_unix 1001) (sample_event '' TEA'' 1001)])) ''tea'' = 2"
proof -
  let ?ops = "[OpAdd None (at_unix 1000) (sample_event ''tea'' 999),
    OpAdd None (at_unix 1001) (sample_event '' TEA'' 1001)]"
  have n: "agg_New (sample_cfg 3) (at_unix 1000) = Inr (sample_agg 3 (at_unix 1000), [])"
    by (rule sample_New) simp
  have q: "NormalizeQuery ''tea'' 64 = Inr ''tea''" "NormalizeQuery '' TEA'' 64 = Inr ''tea''" by code_simp+
  show ?thesis
    using agg_refines_window [OF n, of ?ops "''tea''"] q
    by (simp add: sample_agg_def sample_cfg_def sample_event_def event_query_def win_add_def
        win_expire_def same_slot_only_def live_def ws_second_def ws_cutoff_def at_unix_def
        unixToInternal_def time_Unix_def time_Truncate_def)
qed

end
