(* ===== verification/Aggregator_Exact.thy ===== *)
theory Aggregator_Exact
  imports Aggregator_Window
begin

text \<open>
  When every event arrives on time, the sliding window is exact: \<open>GetTop\<close> after \<open>RebuildTop\<close> is the
  Top-N of the accepted events whose bucket lies in the last \<open>bucketCount\<close> seconds. The theorems at the
  end are what happens to events that do not arrive on time.
\<close>

section \<open>Accepted events\<close>

text \<open>
  What an operation does to the window: nothing (the context is done, or the event is not accepted),
  or an expiration at a clock reading, with the pair that an accepted event adds.
\<close>

definition slot_second :: "agg_config \<Rightarrow> gotime \<Rightarrow> int" where
  "slot_second cfg t = time_Unix (time_Truncate t (BucketSize cfg))"

fun op_effect :: "agg_config \<Rightarrow> agg_op \<Rightarrow> (gotime \<times> (int \<times> string) option) option" where
  "op_effect cfg (OpAdd c now event) =
     (case (c, event_query cfg now event) of
        (None, Some q) \<Rightarrow> Some (now, Some (slot_second cfg (ev_Timestamp event), q))
      | _ \<Rightarrow> None)"
| "op_effect cfg (OpRebuild c now elapsed) =
     (case c of None \<Rightarrow> Some (now, None) | Some _ \<Rightarrow> None)"

definition accepted :: "agg_config \<Rightarrow> agg_op list \<Rightarrow> (int \<times> string) list" where
  "accepted cfg ops = List.map_filter (\<lambda>op. Option.bind (op_effect cfg op) snd) ops"

fun last_clock :: "agg_config \<Rightarrow> gotime \<Rightarrow> agg_op list \<Rightarrow> gotime" where
  "last_clock cfg prev [] = prev"
| "last_clock cfg prev (op # ops) =
     last_clock cfg (case op_effect cfg op of None \<Rightarrow> prev | Some (now, _) \<Rightarrow> now) ops"

text \<open>
  The clock does not go back, and every accepted event falls into a bucket of the current window: not
  later than the bucket of the clock and not \<open>n\<close> seconds or more before it.
\<close>

fun timely :: "agg_config \<Rightarrow> int \<Rightarrow> gotime \<Rightarrow> agg_op list \<Rightarrow> bool" where
  "timely cfg n prev [] \<longleftrightarrow> True"
| "timely cfg n prev (op # ops) \<longleftrightarrow>
     (case op_effect cfg op of
        None \<Rightarrow> timely cfg n prev ops
      | Some (now, e) \<Rightarrow> prev \<le> now \<and>
          (case e of None \<Rightarrow> True
           | Some (s, q) \<Rightarrow> slot_second cfg now - n < s \<and> s \<le> slot_second cfg now) \<and>
          timely cfg n now ops)"

lemma accepted_simps [simp]:
  "accepted cfg [] = []"
  "accepted cfg (op # ops) =
     (case op_effect cfg op of Some (now, Some x) \<Rightarrow> x # accepted cfg ops | _ \<Rightarrow> accepted cfg ops)"
  by (simp_all add: accepted_def map_filter_simps split: option.splits prod.splits)

lemma accepted_append [simp]: "accepted cfg (ops @ ops') = accepted cfg ops @ accepted cfg ops'"
  by (induction ops) (auto split: option.splits prod.splits)

lemma last_clock_append [simp]:
  "last_clock cfg t (ops @ ops') = last_clock cfg (last_clock cfg t ops) ops'"
  by (induction ops arbitrary: t) auto

lemma win_step_effect:
  "win_step w op =
     (case op_effect (ws_cfg w) op of
        None \<Rightarrow> w
      | Some (now, None) \<Rightarrow> w\<lparr>ws_window := win_expire (ws_cutoff w now) (ws_window w)\<rparr>
      | Some (now, Some (s, q)) \<Rightarrow>
          w\<lparr>ws_window := win_add (ws_count w) (ws_cutoff w now) s q (ws_window w)\<rparr>)"
  by (cases op) (auto simp: slot_second_def ws_second_def split: option.splits)

lemma slot_second_mono: "0 < BucketSize cfg \<Longrightarrow> t \<le> u \<Longrightarrow> slot_second cfg t \<le> slot_second cfg u"
  by (simp add: slot_second_def time_Unix_mono time_Truncate_mono)

section \<open>The window is exact\<close>

text \<open>Two seconds of one window that share a slot are the same.\<close>

lemma slot_unique:
  fixes s t :: int
  assumes "s mod n = t mod n" and "hi - n < s" "s \<le> hi" "hi - n < t" "t \<le> hi"
  shows "s = t"
proof -
  have "n dvd s - t" using assms(1) by (simp add: mod_eq_dvd_iff)
  moreover have "\<bar>s - t\<bar> < n" using assms(2-5) by linarith
  ultimately show ?thesis using dvd_imp_le_int [of "s - t" n] by auto
qed

definition exact_window :: "win_state \<Rightarrow> gotime \<Rightarrow> (int \<times> string) list \<Rightarrow> bool" where
  "exact_window w t evs \<longleftrightarrow>
     ws_window w = filter_mset (\<lambda>x. ws_cutoff w t \<le> fst x) (mset evs) \<and>
     (\<forall>x\<in>set evs. fst x \<le> slot_second (ws_cfg w) t) \<and> ws_count w \<le> slot_second (ws_cfg w) t"

lemma exact_expire:
  assumes ex: "exact_window w t evs" and bs: "0 < BucketSize (ws_cfg w)" and le: "t \<le> now"
  shows "exact_window (w\<lparr>ws_window := win_expire (ws_cutoff w now) (ws_window w)\<rparr>) now evs"
    and "ws_cutoff w t \<le> ws_cutoff w now" and "0 < ws_cutoff w t"
proof -
  have m: "slot_second (ws_cfg w) t \<le> slot_second (ws_cfg w) now"
    using bs le by (rule slot_second_mono)
  then show c: "ws_cutoff w t \<le> ws_cutoff w now"
    by (simp add: ws_cutoff_def ws_second_def slot_second_def)
  show p: "0 < ws_cutoff w t"
    using ex by (simp add: exact_window_def ws_cutoff_def ws_second_def slot_second_def)
  have "ws_cutoff w t \<le> fst x \<and> live (ws_cutoff w now) x \<longleftrightarrow> ws_cutoff w now \<le> fst x" for x
    using c p by (auto simp: live_def)
  then have "win_expire (ws_cutoff w now) (ws_window w) =
      filter_mset (\<lambda>x. ws_cutoff w now \<le> fst x) (mset evs)"
    using ex by (simp add: exact_window_def win_expire_def filter_filter_mset conj_commute)
  then show "exact_window (w\<lparr>ws_window := win_expire (ws_cutoff w now) (ws_window w)\<rparr>) now evs"
    using ex m by (auto simp: exact_window_def ws_cutoff_def ws_second_def slot_second_def)
qed

lemma exact_add:
  assumes ex: "exact_window w t evs" and bs: "0 < BucketSize (ws_cfg w)" and le: "t \<le> now"
    and s: "slot_second (ws_cfg w) now - ws_count w < s" "s \<le> slot_second (ws_cfg w) now"
  shows "exact_window (w\<lparr>ws_window := win_add (ws_count w) (ws_cutoff w now) s q (ws_window w)\<rparr>)
    now (evs @ [(s, q)])"
proof -
  let ?w = "win_expire (ws_cutoff w now) (ws_window w)"
  note e = exact_expire [OF ex bs le]
  have w: "?w = filter_mset (\<lambda>x. ws_cutoff w now \<le> fst x) (mset evs)"
    using e(1) by (simp add: exact_window_def ws_cutoff_def ws_second_def)
  have cut: "ws_cutoff w now = slot_second (ws_cfg w) now - ws_count w + 1"
    by (simp add: ws_cutoff_def ws_second_def slot_second_def)
  have "same_slot_only (ws_count w) s x" if "x \<in># ?w" for x
  proof -
    have "ws_cutoff w now \<le> fst x" "fst x \<le> slot_second (ws_cfg w) now"
      using that e(1) unfolding w by (auto simp: exact_window_def)
    then show ?thesis
      using slot_unique [of "fst x" "ws_count w" s "slot_second (ws_cfg w) now"] s cut
      by (auto simp: same_slot_only_def)
  qed
  then have "filter_mset (same_slot_only (ws_count w) s) ?w = ?w" by (simp add: filter_mset_eq_conv)
  then show ?thesis
    using e(1) s cut
    by (auto simp: exact_window_def win_add_def w ws_cutoff_def ws_second_def)
qed

lemma win_step_frame [simp]: "ws_cfg (win_step w op) = ws_cfg w" "ws_count (win_step w op) = ws_count w"
  by (auto simp: win_step_effect split: option.splits)

lemma exact_run:
  assumes "exact_window w t evs" and "0 < BucketSize (ws_cfg w)"
    and "timely (ws_cfg w) (ws_count w) t ops"
  shows "exact_window (foldl win_step w ops) (last_clock (ws_cfg w) t ops)
    (evs @ accepted (ws_cfg w) ops)"
  using assms
proof (induction ops arbitrary: w t evs)
  case (Cons op ops)
  note ih = Cons.IH [of "win_step w op", unfolded win_step_frame, OF _ Cons.prems(2)]
  show ?case
  proof (cases "op_effect (ws_cfg w) op")
    case None
    then show ?thesis using ih [of t evs] Cons.prems by (simp add: win_step_effect)
  next
    case (Some ne)
    obtain now e where ne: "ne = (now, e)" by fastforce
    show ?thesis
    proof (cases e)
      case None
      then show ?thesis
        using ih [of now evs] exact_expire(1) [OF Cons.prems(1,2), of now] Cons.prems(3) Some ne
        by (simp add: win_step_effect)
    next
      case e: (Some sq)
      obtain s q where "sq = (s, q)" by fastforce
      then show ?thesis
        using ih [of now "evs @ [(s, q)]"] exact_add [OF Cons.prems(1,2), of now s q] Cons.prems(3)
          Some ne e by (simp add: win_step_effect)
    qed
  qed
qed simp

section \<open>The Top-N is exact\<close>

text \<open>The number of occurrences of every query in a list.\<close>

definition count_queries :: "string list \<Rightarrow> int gomap" where
  "count_queries qs = foldl (\<lambda>m q. gm_put m q (gm_get m q + 1)) [] qs"

lemma count_queries_props:
  "pos_map (count_queries qs) \<and> gm_get (count_queries qs) q = int (count_list qs q)"
proof (induction qs arbitrary: q rule: rev_induct)
  case (snoc x qs)
  have "pos_map (count_queries qs)" using snoc by blast
  then show ?case using snoc pos_map_nonneg [of "count_queries qs" x]
    by (auto simp: count_queries_def gomap_simps intro: pos_map_put)
qed (simp add: count_queries_def)

lemma pos_map_mset_eq:
  assumes "pos_map m" and "pos_map m'" and "\<And>q. gm_get m q = gm_get m' q"
  shows "mset m = mset m'"
proof -
  have d: "distinct m" "distinct m'"
    using assms(1,2) by (auto simp: pos_map_def gm_wf_def distinct_map)
  have e: "(q, c) \<in> set m \<longleftrightarrow> gm_get m q = c \<and> 0 < c" if "pos_map m" for m :: "int gomap" and q c
  proof
    assume i: "(q, c) \<in> set m"
    then show "gm_get m q = c \<and> 0 < c"
      using that pos_map_entry gm_get_in by (auto simp: pos_map_def)
  next
    assume g: "gm_get m q = c \<and> 0 < c"
    then have "q \<in> gm_keys m" using pos_map_keys [OF that] by simp
    then obtain c' where "(q, c') \<in> set m" by (auto simp: gm_keys_def)
    then show "(q, c) \<in> set m" using g gm_get_in that by (auto simp: pos_map_def)
  qed
  have "(q, c) \<in> set m \<longleftrightarrow> (q, c) \<in> set m'" for q c
    using e [OF assms(1)] e [OF assms(2)] assms(3) by simp
  then show ?thesis using d by (auto simp: set_eq_iff_mset_eq_distinct [symmetric])
qed

lemma top_spec_cong:
  assumes "pos_map m" and "pos_map m'" and "\<And>q. gm_get m q = gm_get m' q"
  shows "top_spec m k = top_spec m' k"
  using buildTop_mset_cong [OF pos_map_mset_eq [OF assms], of k] by (simp add: buildTop_eq)

lemma take_top_spec: "k \<le> k' \<Longrightarrow> take (nat k) (top_spec m k') = top_spec m k"
  by (simp add: top_spec_def min_absorb1 nat_mono)

lemma agg_RebuildTop_clean: "c = None \<Longrightarrow> \<not> dirty (fst (snd (agg_RebuildTop a c now elapsed)))"
  by (auto simp: agg_RebuildTop_def Let_def split_beta)

lemma agg_step_frame [simp]:
  "agg_cfg (agg_step a op) = agg_cfg a" "bucketCount (agg_step a op) = bucketCount a"
  by (cases op; auto simp: agg_Add_state agg_RebuildTop_state split: option.splits)+

lemma foldl_agg_step_frame [simp]:
  "agg_cfg (foldl agg_step a ops) = agg_cfg a" "bucketCount (foldl agg_step a ops) = bucketCount a"
  by (induction ops arbitrary: a) simp_all

lemma normalizeLimit_bounds:
  assumes "config_ok (agg_cfg a)"
  shows "0 < normalizeLimit a limit" and "normalizeLimit a limit \<le> MaxLimit (agg_cfg a)"
  using assms by (auto simp: normalizeLimit_def config_ok_def)

lemma agg_GetTop_take:
  "agg_GetTop a None limit =
   Inr (take (nat (normalizeLimit a limit)) (topCache a), topGeneratedAt a)"
  by (simp add: agg_GetTop_def Let_def)

text \<open>On a clean cache \<open>GetTop\<close> is the Top-N of the counters.\<close>

lemma agg_GetTop_clean:
  assumes "agg_inv n a" and "\<not> dirty a"
  shows "agg_GetTop a None limit =
    Inr (top_spec (agg_counters a) (normalizeLimit a limit), topGeneratedAt a)"
proof -
  have "config_ok (agg_cfg a)" and "topCache a = top_spec (agg_counters a) (MaxLimit (agg_cfg a))"
    using assms by (auto simp: agg_inv_def base_inv_def shape_ok_def cache_ok_def)
  then have "take (nat (normalizeLimit a limit)) (topCache a) =
      top_spec (agg_counters a) (normalizeLimit a limit)"
    using take_top_spec normalizeLimit_bounds(2) by simp
  then show ?thesis by (simp add: agg_GetTop_take)
qed

lemma size_filter_second: "size (filter_mset (\<lambda>x. snd x = q) (mset xs)) = count_list (map snd xs) q"
  by (induction xs) auto

lemma agg_exact:
  fixes ops :: "agg_op list"
  assumes new: "agg_New cfg0 now0 = Inr (a, ms)"
    and late: "bucketCount a \<le> slot_second (agg_cfg a) now0"
    and len: "int (length ops) < maxInt64"
    and t: "timely (agg_cfg a) (bucketCount a) now0 (ops @ [OpRebuild None now elapsed])"
  defines "a' \<equiv> foldl agg_step a (ops @ [OpRebuild None now elapsed])"
    and "counted \<equiv> filter (\<lambda>x. slot_second (agg_cfg a) now - bucketCount a < fst x)
          (accepted (agg_cfg a) ops)"
  shows "agg_GetTop a' None limit =
    Inr (top_spec (count_queries (map snd counted)) (normalizeLimit a limit), topGeneratedAt a')"
proof -
  let ?ops = "ops @ [OpRebuild None now elapsed]"
  have l: "int (length ?ops) \<le> maxInt64" using len by simp
  note r = agg_run_window [OF new l] and n = agg_New_cases [OF new] and z = agg_New_sim [OF new]
  have inv: "agg_inv (int (length ?ops)) a'"
    using r(1) by (simp add: sim_inv_def counted_inv_def a'_def)
  have "exact_window (win_of a) now0 []"
    using late z(2) by (simp add: exact_window_def)
  then have "exact_window (win_of a') now (accepted (agg_cfg a) ops)"
    using exact_run [of "win_of a" now0 "[]" ?ops] t n(1) r(2) unfolding a'_def
    by (simp add: config_ok_def)
  moreover have fr: "agg_cfg a' = agg_cfg a" "bucketCount a' = bucketCount a"
    unfolding a'_def by (rule foldl_agg_step_frame)+
  ultimately have "window a' = mset counted"
    by (simp add: exact_window_def counted_def cutoffSecond_def bucketSecond_def slot_second_def
        time_UTC_def less_iff_succ_less_eq add.commute)
  then have "gm_get (agg_counters a') q = gm_get (count_queries (map snd counted)) q" for q
    using counters_window [of "int (length ?ops)" a' q] inv count_queries_props
    by (simp add: agg_inv_def size_filter_second)
  then have "top_spec (agg_counters a') k = top_spec (count_queries (map snd counted)) k" for k
    using inv count_queries_props
    by (intro top_spec_cong) (auto simp: agg_inv_def base_inv_def counters_ok_def)
  moreover have "\<not> dirty a'" by (simp add: a'_def agg_RebuildTop_clean)
  moreover have "normalizeLimit a' limit = normalizeLimit a limit"
    by (simp add: normalizeLimit_def fr)
  ultimately show ?thesis using agg_GetTop_clean [OF inv] by simp
qed

text \<open>
  C1: the Top-N is exact. Take a successful \<open>New\<close>, any sequence of operations in which the clock does not
  go back and every accepted event falls into a bucket of the current window, and a \<open>RebuildTop\<close> at
  \<open>now\<close>. Then \<open>GetTop\<close> returns, for every limit, exactly the first \<open>normalizeLimit limit\<close> queries in the
  order of \<open>isBetter\<close> when each query is counted once for every accepted event with that normalised
  query whose bucket is among the last \<open>bucketCount\<close> seconds before \<open>now\<close>. Nothing older is counted,
  nothing in the window is lost, whatever the number of operations below \<open>2 ^ 63\<close>.
\<close>

theorem agg_top_exact:
  fixes ops :: "agg_op list"
  assumes new: "agg_New cfg0 now0 = Inr (a, ms)"
    and late: "bucketCount a \<le> slot_second (agg_cfg a) now0"
    and len: "int (length ops) < maxInt64"
    and t: "timely (agg_cfg a) (bucketCount a) now0 (ops @ [OpRebuild None now elapsed])"
  defines "a' \<equiv> foldl agg_step a (ops @ [OpRebuild None now elapsed])"
    and "counted \<equiv> filter (\<lambda>x. slot_second (agg_cfg a) now - bucketCount a < fst x)
          (accepted (agg_cfg a) ops)"
  shows "agg_GetTop a' None limit =
    Inr (top_spec (count_queries (map snd counted)) (normalizeLimit a limit), topGeneratedAt a')"
  unfolding a'_def counted_def using agg_exact [OF new late len t] .

text \<open>
  With one-second buckets an event that is at most the window minus one second old and not from the
  future always falls into a bucket of the current window.
\<close>

lemma on_time_slot:
  assumes "BucketSize cfg = second" and "Window cfg = n * second"
    and "now - Window cfg + second \<le> t" and "t \<le> now"
  shows "slot_second cfg now - n < slot_second cfg t \<and> slot_second cfg t \<le> slot_second cfg now"
proof -
  have "time_Unix (now - n * second + second) \<le> time_Unix t"
    using assms(2,3) by (intro time_Unix_mono) simp
  moreover have "time_Unix (now - n * second + second) = time_Unix now - n + 1"
    using time_Unix_sub_seconds [of now "n - 1"] by (simp add: algebra_simps)
  ultimately show ?thesis using assms(1,4) time_Unix_mono [of t now] by (simp add: slot_second_def)
qed

lemmas sample_defs = sample_agg_def sample_cfg_def sample_event_def event_query_def
lemmas window_defs = win_add_def win_expire_def same_slot_only_def live_def ws_second_def ws_cutoff_def
lemmas clock_defs = at_unix_def unixToInternal_def time_Unix_def time_Truncate_def slot_second_def

theorem agg_top_exact_witness:
  "\<exists>g. agg_GetTop (foldl agg_step (sample_agg 3 (at_unix 1000))
     ([OpAdd None (at_unix 1000) (sample_event ''tea'' 999),
       OpAdd None (at_unix 1001) (sample_event ''milk'' 1001),
       OpAdd None (at_unix 1001) (sample_event '' TEA'' 1001)] @ [OpRebuild None (at_unix 1002) 1]))
     None 5 = Inr ([TopItem ''milk'' 1, TopItem ''tea'' 1], g)"
proof -
  let ?ops = "[OpAdd None (at_unix 1000) (sample_event ''tea'' 999),
    OpAdd None (at_unix 1001) (sample_event ''milk'' 1001),
    OpAdd None (at_unix 1001) (sample_event '' TEA'' 1001)]"
  have n: "agg_New (sample_cfg 3) (at_unix 1000) = Inr (sample_agg 3 (at_unix 1000), [])"
    by (rule sample_New) simp
  have q: "NormalizeQuery ''tea'' 64 = Inr ''tea''" "NormalizeQuery '' TEA'' 64 = Inr ''tea''"
      "NormalizeQuery ''milk'' 64 = Inr ''milk''" by code_simp+
  have top: "top_spec (count_queries [''milk'', ''tea'']) 5 = [TopItem ''milk'' 1, TopItem ''tea'' 1]"
    by code_simp
  have "normalizeLimit (sample_agg 3 (at_unix 1000)) 5 = 5"
    by (simp add: normalizeLimit_def sample_agg_def sample_cfg_def)
  then show ?thesis
    using agg_top_exact [OF n, of ?ops "at_unix 1002" 1 5] q top
    by (simp add: sample_defs clock_defs)
qed

section \<open>Events that are not on time\<close>

text \<open>
  C25: two accepted events whose seconds differ but share a slot cannot both be counted. For any window of
  \<open>w\<close> one-second buckets, two events that \<open>Add\<close> accepts at the same clock reading \<open>T\<close>, with different
  seconds in \<open>[T - w, T + 5]\<close> that are equal modulo \<open>w\<close>, leave only the second event in the window: an
  event exactly one window old wipes the bucket of the current second, and an event from the allowed
  future wipes the bucket of a second that is still inside the window.
\<close>

theorem slot_collision_loses_event:
  assumes w: "0 < w" and T: "w < T"
    and s1: "T - w < s1" "s1 \<le> T + 5" and s2: "T - w \<le> s2" "s2 \<le> T + 5"
    and ne: "s1 \<noteq> s2" "s1 mod w = s2 mod w"
    and q: "NormalizeQuery q1 64 = Inr q1" "NormalizeQuery q2 64 = Inr q2"
  shows "window (foldl agg_step (sample_agg w (at_unix T))
    [OpAdd None (at_unix T) (sample_event q1 s1), OpAdd None (at_unix T) (sample_event q2 s2)]) =
    {#(s2, q2)#}"
proof -
  let ?ops = "[OpAdd None (at_unix T) (sample_event q1 s1), OpAdd None (at_unix T) (sample_event q2 s2)]"
  have n: "agg_New (sample_cfg w) (at_unix T) = Inr (sample_agg w (at_unix T), [])"
    using w by (rule sample_New)
  have sec: "time_Unix (time_Truncate (at_unix s) second) = s" for s by simp
  have z: "at_unix s1 \<noteq> 0" "at_unix s2 \<noteq> 0"
    using w T s1 s2 by (auto simp: at_unix_def unixToInternal_def)
  have b: "at_unix T - w * second \<le> at_unix s \<and> at_unix s \<le> at_unix T + 5 * second"
    if "T - w \<le> s" "s \<le> T + 5" for s
    using that unfolding at_unix_def by (simp add: algebra_simps)
  have e1: "event_query (sample_cfg w) (at_unix T) (sample_event q1 s1) = Some q1"
    using b [of s1] s1 z q by (simp add: event_query_def sample_cfg_def sample_event_def)
  have e2: "event_query (sample_cfg w) (at_unix T) (sample_event q2 s2) = Some q2"
    using b [of s2] s2 z q by (simp add: event_query_def sample_cfg_def sample_event_def)
  have "win_of (foldl agg_step (sample_agg w (at_unix T)) ?ops) =
      foldl win_step (win_of (sample_agg w (at_unix T))) ?ops"
    by (rule agg_run_window [OF n]) simp
  moreover have "win_of (sample_agg w (at_unix T)) =
      \<lparr>ws_cfg = sample_cfg w, ws_count = w, ws_window = {#}\<rparr>"
    using agg_New_sim(2) [OF n] by (simp add: win_of_def) (simp add: sample_agg_def)
  ultimately have "ws_window (win_of (foldl agg_step (sample_agg w (at_unix T)) ?ops)) =
      win_add w (T - w + 1) s2 q2 (win_add w (T - w + 1) s1 q1 {#})"
    using e1 e2 by (simp add: ws_second_def ws_cutoff_def) (simp add: sample_cfg_def sample_event_def)
  then show ?thesis using ne by (simp add: window_defs)
qed

theorem slot_collision_loses_event_witness:
  "window (foldl agg_step (sample_agg 3 (at_unix 1000))
    [OpAdd None (at_unix 1000) (sample_event ''tea'' 1000),
     OpAdd None (at_unix 1000) (sample_event ''milk'' 997)]) = {#(997, ''milk'')#}"
proof -
  have "NormalizeQuery ''tea'' 64 = Inr ''tea''" "NormalizeQuery ''milk'' 64 = Inr ''milk''"
    by code_simp+
  then show ?thesis
    using slot_collision_loses_event [of 3 1000 1000 997 "''tea''" "''milk''"] by simp
qed


section \<open>Results of the methods\<close>

text \<open>
  C22: \<open>Add\<close> fails without a trace. With a live context, the only errors are the four that
  \<open>IsValidationError\<close> recognises, and they come with an unchanged state and the metric \<open>invalid\<close>; without
  an error the state changes exactly when the event is acceptable, and then the cache is marked dirty.
\<close>

theorem agg_Add_outcome:
  assumes "agg_Add a None now event = (r, a', ms)"
  shows "(\<forall>e. r = Some e \<longrightarrow> IsValidationError e \<and> a' = a \<and> ms = observeEvent a ''invalid'') \<and>
    (event_query (agg_cfg a) now event = None \<longrightarrow> a' = a) \<and>
    (\<forall>q. event_query (agg_cfg a) now event = Some q \<longrightarrow> r = None \<and> dirty a' \<and>
       a' = addLocked a now (bucketSecond a (ev_Timestamp event)) q)"
proof -
  have st: "a' = (case event_query (agg_cfg a) now event of
      Some q \<Rightarrow> addLocked a now (bucketSecond a (ev_Timestamp event)) q | None \<Rightarrow> a)"
    using agg_Add_state [of a None now event] assms by (simp split: option.splits)
  have "IsValidationError e \<and> a' = a \<and> ms = observeEvent a ''invalid''" if "r = Some e" for e
  proof -
    have "validateAndNormalize a event now = Inl e" and o: "a' = a \<and> ms = observeEvent a ''invalid''"
      using assms that by (auto simp: agg_Add_def Let_def split: sum.splits if_splits prod.splits)
    then have "e \<in> {ErrInvalidTimestamp, ErrEventFromFuture, ErrEmptyQuery, ErrQueryTooLong}"
      by (auto simp: validateAndNormalize_def NormalizeQuery_eq Let_def split: if_splits sum.splits)
    then show ?thesis using o by (auto simp: IsValidationError_def)
  qed
  moreover have "r = None" if "event_query (agg_cfg a) now event = Some q" for q
    using that assms unfolding validateAndNormalize_accepts [symmetric] by (simp add: agg_Add_def Let_def)
  ultimately show ?thesis using st by simp
qed

theorem agg_Add_outcome_witness:
  "agg_Add (sample_agg 3 0) None (at_unix 1000) (sample_event ''tea'' 2000) =
     (Some ErrEventFromFuture, sample_agg 3 0, []) \<and>
   IsValidationError ErrEventFromFuture"
proof -
  have e: "agg_Add (sample_agg 3 0) None (at_unix 1000) (sample_event ''tea'' 2000) =
      (Some ErrEventFromFuture, sample_agg 3 0, [])"
    by (simp add: agg_Add_def validateAndNormalize_def time_defs sample_agg_def sample_cfg_def
        sample_event_def at_unix_def unixToInternal_def observeEvent_def emit_def)
  then show ?thesis using agg_Add_outcome [OF e] by blast
qed

text \<open>A Top-N of positive counters: bounded, in strict order, counts positive and in range, no query
  twice.\<close>

definition top_wf :: "int \<Rightarrow> top_item list \<Rightarrow> bool" where
  "top_wf limit items \<longleftrightarrow> int (length items) \<le> limit \<and> sorted_wrt isBetter items \<and>
     (\<forall>x\<in>set items. 0 < Count x \<and> Count x \<le> maxInt64) \<and> distinct (map Query items)"

lemma top_spec_wf:
  assumes "pos_map m" and "0 \<le> limit" and "\<forall>q. gm_get m q \<le> maxInt64"
  shows "top_wf limit (top_spec m limit)"
proof -
  let ?xs = "positive_items m"
  have f: "filter (\<lambda>(q, c). 0 < c) m = m"
    using pos_map_entry [OF assms(1)] by (intro filter_True) auto
  have q: "map Query ?xs = map fst m" unfolding positive_items_def f by auto
  then have d: "distinct (map Query ?xs)" using assms(1) by (simp add: pos_map_def gm_wf_def)
  have "mset (map Query (sort ?xs)) = mset (map Query ?xs)" by simp
  then have ds: "distinct (map Query (sort ?xs))" using d by (metis mset_eq_imp_distinct_iff)
  then have "sorted_wrt (<) (sort ?xs)" by (auto simp: strict_sorted_iff distinct_map)
  then have "sorted_wrt isBetter (sort ?xs)"
    by (rule sorted_wrt_mono_rel [rotated]) (simp add: less_top_item_def)
  moreover have "\<forall>x\<in>set ?xs. 0 < Count x \<and> Count x \<le> maxInt64"
    using assms(1,3) gm_get_in by (force simp: positive_items_def pos_map_def)
  ultimately show ?thesis
    using ds assms(2) unfolding top_wf_def top_spec_def
    by (auto simp: sorted_wrt_take distinct_take take_map [symmetric] dest: in_set_takeD)
qed

lemma agg_GetTop_inv:
  assumes "agg_inv n a"
  obtains items where "agg_GetTop a None limit = Inr (items, topGeneratedAt a)"
    and "top_wf (normalizeLimit a limit) items" and "normalizeLimit a limit \<le> MaxLimit (agg_cfg a)"
proof -
  obtain m where m: "pos_map m" "topCache a = top_spec m (MaxLimit (agg_cfg a))"
      "\<forall>q. gm_get m q \<le> maxInt64" and cfg: "config_ok (agg_cfg a)"
    using assms by (auto simp: agg_inv_def base_inv_def shape_ok_def cache_ok_def)
  note l = normalizeLimit_bounds [OF cfg, of limit]
  have "agg_GetTop a None limit = Inr (top_spec m (normalizeLimit a limit), topGeneratedAt a)"
    using take_top_spec [OF l(2), of m] m(2) by (simp add: agg_GetTop_take)
  then show ?thesis using top_spec_wf [OF m(1) _ m(3)] l that by simp
qed

text \<open>
  C21: in every reachable state, stale cache or not, \<open>GetTop\<close> with a live context returns at most
  \<open>normalizeLimit limit\<close> items, strictly ordered by \<open>isBetter\<close> (so the order is deterministic), with
  positive counts and no query twice; \<open>Snapshot\<close> returns the same items and the window in whole seconds,
  and a context that is done gives its error.
\<close>

theorem agg_GetTop_wf:
  assumes "agg_New cfg0 now0 = Inr (a0, ms)" and "int (length ops) \<le> maxInt64"
  defines "a \<equiv> foldl agg_step a0 ops"
  shows "\<exists>items. agg_GetTop a None limit = Inr (items, topGeneratedAt a) \<and>
    top_wf (normalizeLimit a limit) items \<and> normalizeLimit a limit \<le> MaxLimit cfg0 \<and>
    agg_Snapshot a None limit = Inr \<lparr>Items = items, GeneratedAt = topGeneratedAt a,
      WindowSeconds = f64_to_int64 (duration_Seconds (Window cfg0))\<rparr>"
proof -
  have inv: "agg_inv (int (length ops)) a"
    using agg_run_window(1) [OF assms(1,2)] by (simp add: sim_inv_def counted_inv_def a_def)
  then obtain items where "agg_GetTop a None limit = Inr (items, topGeneratedAt a)"
      "top_wf (normalizeLimit a limit) items" "normalizeLimit a limit \<le> MaxLimit (agg_cfg a)"
    by (rule agg_GetTop_inv)
  moreover have "MaxLimit (agg_cfg a) = MaxLimit cfg0" "Window (agg_cfg a) = Window cfg0"
    using agg_New_Inr [OF assms(1)] by (simp_all add: a_def)
  ultimately show ?thesis by (simp add: agg_Snapshot_def)
qed

theorem agg_GetTop_wf_witness:
  "normalizeLimit (sample_agg 3 0) 20 = 10 \<and>
   (\<exists>items. agg_GetTop (sample_agg 3 0) None 20 = Inr (items, 0) \<and> top_wf 10 items)"
  using agg_GetTop_wf [OF sample_New, of 3 "[]" 0 20]
  by (auto simp: normalizeLimit_def sample_agg_def sample_cfg_def)

text \<open>
  C23: the background loop \<open>Run\<close> never fails. Whatever ticks it receives, as long as the contexts report
  what the \<open>context\<close> package documents, it is still running or has returned nil, and it has returned as
  soon as the context is done or a rebuild finds it done.
\<close>

theorem agg_Run_never_fails:
  assumes "\<forall>c now e. RunTick c now e \<in> set es \<longrightarrow> ctx_ok c"
  shows "fst (agg_Run a es) \<in> {None, Some None} \<and>
    (fst (agg_Run a es) = Some None \<longleftrightarrow>
       (\<exists>e\<in>set es. e = RunDone \<or> (\<exists>c now d. e = RunTick (Some c) now d)))"
  using assms
proof (induction a es rule: agg_Run.induct)
  case (3 a c now elapsed es)
  show ?case
  proof (cases c)
    case None
    then obtain a' ms where r: "agg_RebuildTop a c now elapsed = (None, a', ms)"
      by (simp add: agg_RebuildTop_def Let_def split_beta)
    have "\<forall>c now e. RunTick c now e \<in> set es \<longrightarrow> ctx_ok c" using "3.prems" by auto
    from "3.IH" [OF r [symmetric] refl refl this] show ?thesis using r None by (auto split: prod.splits)
  next
    case (Some err)
    have "ctx_ok c" using "3.prems" by auto
    then have "err = Canceled \<or> err = DeadlineExceeded" using Some by (simp add: ctx_ok_def)
    then show ?thesis using Some by (auto simp: agg_RebuildTop_def)
  qed
qed auto

theorem agg_Run_never_fails_witness:
  "fst (agg_Run (sample_agg 3 0) [RunTick None (at_unix 5) 1, RunTick (Some Canceled) (at_unix 6) 1]) =
   Some None"
  using agg_Run_never_fails [of "[RunTick None (at_unix 5) 1, RunTick (Some Canceled) (at_unix 6) 1]"
      "sample_agg 3 0"]
  by (auto simp: ctx_ok_def)

end
