(* ===== verification/Stoplist.thy ===== *)
theory Stoplist
  imports Normalizer
begin

text \<open>
  \<open>internal/stoplist/stoplist.go\<close>: the stop-list manager. A \<open>map[string]struct{}\<close> is a map to the unit
  type; \<open>atomic.Value\<close> is \<open>None\<close> before the first \<open>Store\<close>. \<open>Add\<close> and \<open>Remove\<close> hold the mutex and publish a
  modified copy, so each is one operation on the published set; the steps inside them are the theory
  \<open>Stoplist_Concurrent\<close>. The results: the manager implements a set of normal forms, \<open>List\<close> is its sorted
  enumeration, and how its normaliser agrees and disagrees with \<open>NormalizeQuery\<close>.
\<close>

section \<open>The code\<close>

type_synonym wordset = "unit gomap"

record manager =
  sl_words :: "wordset option"

fun stopLoop :: "rune list \<Rightarrow> string \<Rightarrow> bool \<Rightarrow> string" where
  "stopLoop [] builder previousWasSpace = builder"
| "stopLoop (r # rs) builder previousWasSpace =
     (if IsControl r then stopLoop rs builder previousWasSpace
      else if IsSpace r then
        (if 0 < length builder \<and> \<not> previousWasSpace
         then stopLoop rs (builder @ encodeRune 32) True
         else stopLoop rs builder previousWasSpace)
      else stopLoop rs (builder @ encodeRune (ToLower r)) False)"

definition sl_normalize :: "string \<Rightarrow> string" where
  "sl_normalize word0 =
     (let word = TrimSpace word0
      in if word = [] then [] else TrimSpace (stopLoop (runes word) [] False))"

fun buildSetLoop :: "string list \<Rightarrow> wordset \<Rightarrow> wordset" where
  "buildSetLoop [] acc = acc"
| "buildSetLoop (word # words) acc =
     (let normalized = sl_normalize word
      in buildSetLoop words (if normalized \<noteq> [] then gm_put acc normalized () else acc))"

definition buildSet :: "string list \<Rightarrow> wordset" where
  "buildSet words = buildSetLoop words []"

fun cloneLoop :: "wordset \<Rightarrow> wordset \<Rightarrow> wordset" where
  "cloneLoop [] clone = clone"
| "cloneLoop ((word, _) # rest) clone = cloneLoop rest (gm_put clone word ())"

definition cloneSet :: "wordset \<Rightarrow> wordset" where
  "cloneSet source = cloneLoop source []"

definition sl_load :: "manager \<Rightarrow> wordset" where
  "sl_load m = (case sl_words m of None \<Rightarrow> [] | Some value \<Rightarrow> value)"

definition sl_NewManager :: "string list \<Rightarrow> manager" where
  "sl_NewManager initial = \<lparr>sl_words = Some (buildSet initial)\<rparr>"

definition sl_Contains :: "manager \<Rightarrow> string \<Rightarrow> bool" where
  "sl_Contains m word = gm_has (sl_load m) (sl_normalize word)"

definition sl_Add :: "manager \<Rightarrow> string \<Rightarrow> bool \<times> manager" where
  "sl_Add m word0 =
     (let word = sl_normalize word0
      in if word = [] then (False, m)
      else let current = sl_load m
      in if gm_has current word then (False, m)
      else (True, m\<lparr>sl_words := Some (gm_put (cloneSet current) word ())\<rparr>))"

definition sl_Remove :: "manager \<Rightarrow> string \<Rightarrow> bool \<times> manager" where
  "sl_Remove m word0 =
     (let word = sl_normalize word0
      in if word = [] then (False, m)
      else let current = sl_load m
      in if \<not> gm_has current word then (False, m)
      else (True, m\<lparr>sl_words := Some (gm_delete (cloneSet current) word)\<rparr>))"

definition sl_List :: "manager \<Rightarrow> string list" where
  "sl_List m = sort (map fst (sl_load m))"

definition sl_Size :: "manager \<Rightarrow> int" where
  "sl_Size m = int (length (sl_load m))"

section \<open>The normaliser\<close>

definition stop_runes :: "rune list \<Rightarrow> rune list" where
  "stop_runes rs = filter (\<lambda>r. \<not> IsControl r) rs"

lemma stopLoop_core:
  assumes "prev \<Longrightarrow> C \<noteq> []"
  shows "stopLoop rs (encode (pending C prev)) prev =
    (let (C', prev') = core (stop_runes rs) C prev in encode (pending C' prev'))"
  using assms
proof (induction rs arbitrary: C prev)
  case (Cons r rs)
  consider (control) "IsControl r" | (space) "\<not> IsControl r" "IsSpace r"
    | (keep) "\<not> IsControl r" "\<not> IsSpace r" by blast
  then show ?case
  proof cases
    case space
    then show ?thesis
      using Cons.IH [of "prev \<or> C \<noteq> []" C] Cons.prems
      by (cases prev; cases "C = []") (simp_all add: stop_runes_def)
  next
    case keep
    then show ?thesis using Cons.IH [of False "pending C prev @ [ToLower r]"]
      by (simp add: stop_runes_def)
  qed (use Cons in \<open>simp add: stop_runes_def\<close>)
qed (simp add: stop_runes_def)

lemma canonical_stop_trim: "canonical (stop_runes (trim IsSpace rs)) = canonical (stop_runes rs)"
proof -
  have drop: "canonical (stop_runes (dropWhile IsSpace xs)) = canonical (stop_runes xs)" for xs
    by (induction xs) (simp_all add: stop_runes_def canonical_space_Cons)
  have "canonical (stop_runes (rev (dropWhile IsSpace (rev xs)))) = canonical (stop_runes xs)" for xs
    by (induction xs rule: rev_induct) (simp_all add: stop_runes_def canonical_space_snoc)
  then show ?thesis by (simp add: trim_def drop)
qed

lemma stop_runes_valid: "\<forall>r\<in>set (stop_runes (runes s)). validRune r"
  using runes_valid by (auto simp: stop_runes_def)

lemma sl_normalize_eq: "sl_normalize s = encode (canonical (stop_runes (runes s)))"
proof -
  let ?c = "canonical (stop_runes (runes s))"
  have c: "canonical (stop_runes (runes (TrimSpace s))) = ?c"
    by (simp add: runes_TrimSpace canonical_stop_trim)
  obtain p where loop: "stopLoop (runes (TrimSpace s)) [] False = encode (pending ?c p)"
    using stopLoop_core [of False "[]" "runes (TrimSpace s)"]
      core_canonical [of "stop_runes (runes (TrimSpace s))"] c
    by (cases "core (stop_runes (runes (TrimSpace s))) [] False") auto
  have "\<forall>r\<in>set (pending ?c p). validRune r"
    using canonical_valid [OF stop_runes_valid] by (auto simp: validRune_def)
  then have "TrimSpace (encode (pending ?c p)) = encode ?c"
    using TrimSpace_encode trim_canonical [OF stop_runes_valid] by metis
  moreover have "TrimSpace s = [] \<Longrightarrow> ?c = []" using c by (auto simp: stop_runes_def canonical_def)
  ultimately show ?thesis by (auto simp: sl_normalize_def Let_def loop)
qed

lemma runes_sl_normalize: "runes (sl_normalize s) = canonical (stop_runes (runes s))"
  unfolding sl_normalize_eq using canonical_valid [OF stop_runes_valid] by (intro runes_encode) blast

lemma stop_runes_normal: "normal_runes rs \<Longrightarrow> stop_runes rs = rs"
  by (simp add: normal_runes_def normal_rune_def stop_runes_def list_all_iff)

lemma sl_normalize_normal:
  assumes "runes q = canonical rs" and "\<forall>r\<in>set rs. validRune r" and "q = encode (canonical rs)"
  shows "sl_normalize q = q"
proof (cases "canonical rs = []")
  case True
  then show ?thesis using assms(1,3) by (simp add: sl_normalize_eq stop_runes_def canonical_def)
next
  case False
  then have "stop_runes (canonical rs) = canonical rs"
    using canonical_normal [OF assms(2)] by (intro stop_runes_normal) simp
  then show ?thesis using assms canonical_idem by (simp add: sl_normalize_eq)
qed

lemma sl_normalize_idem [simp]: "sl_normalize (sl_normalize s) = sl_normalize s"
  by (rule sl_normalize_normal [OF runes_sl_normalize stop_runes_valid sl_normalize_eq])

section \<open>The interface of a stop list\<close>

text \<open>
  What the clients of the manager rely on: the consumer's handler calls \<open>Contains\<close>, the gRPC server the
  other methods. The state stands for a finite set of words in normal form.
\<close>

locale stop_words =
  fixes words_inv :: "'m \<Rightarrow> bool"
    and words_of :: "'m \<Rightarrow> string set"
    and norm :: "string \<Rightarrow> string"
    and contains :: "'m \<Rightarrow> string \<Rightarrow> bool"
    and add_word :: "'m \<Rightarrow> string \<Rightarrow> bool \<times> 'm"
    and remove_word :: "'m \<Rightarrow> string \<Rightarrow> bool \<times> 'm"
    and list_words :: "'m \<Rightarrow> string list"
    and words_size :: "'m \<Rightarrow> int"
  assumes norm_idem: "norm (norm w) = norm w"
    and words_normal: "words_inv m \<Longrightarrow> w \<in> words_of m \<Longrightarrow> w \<noteq> [] \<and> norm w = w"
    and words_finite: "words_inv m \<Longrightarrow> finite (words_of m)"
    and contains_words: "words_inv m \<Longrightarrow> contains m w \<longleftrightarrow> norm w \<in> words_of m"
    and add_inv: "words_inv m \<Longrightarrow> words_inv (snd (add_word m w))"
    and add_words: "words_inv m \<Longrightarrow>
      words_of (snd (add_word m w)) = words_of m \<union> ({norm w} - {[]})"
    and add_result: "words_inv m \<Longrightarrow> fst (add_word m w) \<longleftrightarrow> words_of (snd (add_word m w)) \<noteq> words_of m"
    and remove_inv: "words_inv m \<Longrightarrow> words_inv (snd (remove_word m w))"
    and remove_words: "words_inv m \<Longrightarrow> words_of (snd (remove_word m w)) = words_of m - {norm w}"
    and remove_result: "words_inv m \<Longrightarrow>
      fst (remove_word m w) \<longleftrightarrow> words_of (snd (remove_word m w)) \<noteq> words_of m"
    and list_sorted: "words_inv m \<Longrightarrow> list_words m = sorted_list_of_set (words_of m)"
    and size_card: "words_inv m \<Longrightarrow> words_size m = int (card (words_of m))"
begin

lemma contains_add:
  "words_inv m \<Longrightarrow> contains (snd (add_word m w)) v \<longleftrightarrow> contains m v \<or> norm v = norm w \<and> norm w \<noteq> []"
  by (auto simp: contains_words add_inv add_words)

lemma contains_remove:
  "words_inv m \<Longrightarrow> contains (snd (remove_word m w)) v \<longleftrightarrow> contains m v \<and> norm v \<noteq> norm w"
  by (auto simp: contains_words remove_inv remove_words)

lemma contains_norm: "words_inv m \<Longrightarrow> contains m (norm w) \<longleftrightarrow> contains m w"
  by (simp add: contains_words norm_idem)

lemma contains_list: "words_inv m \<Longrightarrow> contains m w \<longleftrightarrow> norm w \<in> set (list_words m)"
  by (simp add: contains_words list_sorted words_finite)

lemma size_list: "words_inv m \<Longrightarrow> words_size m = int (length (list_words m))"
  by (simp add: size_card list_sorted)

lemma remove_add:
  assumes "words_inv m" and "fst (add_word m w)"
  shows "words_of (snd (remove_word (snd (add_word m w)) w)) = words_of m"
proof -
  have "norm w \<notin> words_of m" using assms add_result add_words by auto
  then show ?thesis using assms(1) by (auto simp: remove_words add_words add_inv)
qed

lemma size_add:
  assumes "words_inv m"
  shows "words_size (snd (add_word m w)) = words_size m + (if fst (add_word m w) then 1 else 0)"
proof (cases "fst (add_word m w)")
  case True
  then have "norm w \<notin> words_of m" "norm w \<noteq> []" using assms add_result add_words by auto
  then show ?thesis using assms True by (simp add: size_card add_inv add_words words_finite)
qed (use assms add_result in \<open>simp add: size_card add_inv\<close>)

end

section \<open>The manager implements it\<close>

definition wordset_ok :: "wordset \<Rightarrow> bool" where
  "wordset_ok ws \<longleftrightarrow> gm_wf ws \<and> (\<forall>w\<in>gm_keys ws. w \<noteq> [] \<and> sl_normalize w = w)"

definition sl_inv :: "manager \<Rightarrow> bool" where
  "sl_inv m \<longleftrightarrow> wordset_ok (sl_load m)"

definition sl_set :: "manager \<Rightarrow> string set" where
  "sl_set m = gm_keys (sl_load m)"

lemma cloneLoop_keys:
  "gm_keys (cloneLoop ws acc) = gm_keys ws \<union> gm_keys acc \<and> (gm_wf acc \<longrightarrow> gm_wf (cloneLoop ws acc))"
  by (induction ws acc rule: cloneLoop.induct) (auto simp: gomap_simps gm_keys_Cons)

lemma cloneSet_keys [simp]: "gm_keys (cloneSet ws) = gm_keys ws" "gm_wf (cloneSet ws)"
  using cloneLoop_keys [of ws "[]"] by (simp_all add: cloneSet_def)

lemma buildSetLoop_keys:
  "gm_keys (buildSetLoop words acc) = gm_keys acc \<union> (sl_normalize ` set words - {[]}) \<and>
   (gm_wf acc \<longrightarrow> gm_wf (buildSetLoop words acc))"
  by (induction words acc rule: buildSetLoop.induct) (auto simp: gomap_simps Let_def)

lemma sl_NewManager_ok:
  "sl_inv (sl_NewManager initial)" "sl_set (sl_NewManager initial) = sl_normalize ` set initial - {[]}"
  using buildSetLoop_keys [of initial "[]"]
  by (auto simp: sl_inv_def sl_set_def sl_NewManager_def sl_load_def buildSet_def wordset_ok_def)

lemma sl_load_update [simp]: "sl_load (m\<lparr>sl_words := Some ws\<rparr>) = ws"
  by (simp add: sl_load_def)

interpretation sl: stop_words sl_inv sl_set sl_normalize sl_Contains sl_Add sl_Remove sl_List sl_Size
proof
  fix m w
  assume inv: "sl_inv m"
  have wf: "gm_wf (sl_load m)" using inv by (simp add: sl_inv_def wordset_ok_def)
  show "w \<in> sl_set m \<Longrightarrow> w \<noteq> [] \<and> sl_normalize w = w"
    using inv by (simp add: sl_inv_def sl_set_def wordset_ok_def)
  show "finite (sl_set m)" by (simp add: sl_set_def)
  show "sl_Contains m w \<longleftrightarrow> sl_normalize w \<in> sl_set m"
    by (simp add: sl_Contains_def sl_set_def gm_has_keys)
  show "sl_inv (snd (sl_Add m w))"
    using inv by (auto simp: sl_inv_def sl_Add_def wordset_ok_def gomap_simps Let_def)
  show "sl_set (snd (sl_Add m w)) = sl_set m \<union> ({sl_normalize w} - {[]})"
    by (auto simp: sl_set_def sl_Add_def gomap_simps gm_has_keys Let_def)
  show "fst (sl_Add m w) \<longleftrightarrow> sl_set (snd (sl_Add m w)) \<noteq> sl_set m"
    by (auto simp: sl_set_def sl_Add_def gomap_simps gm_has_keys Let_def)
  show "sl_inv (snd (sl_Remove m w))"
    using inv by (auto simp: sl_inv_def sl_Remove_def wordset_ok_def gomap_simps Let_def)
  have "[] \<notin> sl_set m" using inv by (auto simp: sl_inv_def sl_set_def wordset_ok_def)
  then show "sl_set (snd (sl_Remove m w)) = sl_set m - {sl_normalize w}"
    by (auto simp: sl_set_def sl_Remove_def gomap_simps gm_has_keys Let_def)
  show "fst (sl_Remove m w) \<longleftrightarrow> sl_set (snd (sl_Remove m w)) \<noteq> sl_set m"
    by (auto simp: sl_set_def sl_Remove_def gomap_simps gm_has_keys Let_def)
  show "sl_List m = sorted_list_of_set (sl_set m)"
    using wf sorted_list_of_set_sort_remdups [of "map fst (sl_load m)"]
    by (simp add: sl_List_def sl_set_def gm_keys_def gm_wf_def distinct_remdups_id)
  show "sl_Size m = int (card (sl_set m))"
    using wf distinct_card [of "map fst (sl_load m)"]
    by (simp add: sl_Size_def sl_set_def gm_keys_def gm_wf_def)
qed simp

section \<open>Sequences of operations\<close>

datatype sl_op = SlAdd string | SlRemove string

fun sl_step :: "manager \<Rightarrow> sl_op \<Rightarrow> manager" where
  "sl_step m (SlAdd w) = snd (sl_Add m w)"
| "sl_step m (SlRemove w) = snd (sl_Remove m w)"

text \<open>The specification: a set of normal forms.\<close>

fun set_step :: "string set \<Rightarrow> sl_op \<Rightarrow> string set" where
  "set_step S (SlAdd w) = S \<union> ({sl_normalize w} - {[]})"
| "set_step S (SlRemove w) = S - {sl_normalize w}"

interpretation sl_run: run_refinement sl_step sl_inv "\<lambda>_ _. True" sl_set set_step
proof
  fix m op
  assume "sl_inv m"
  then show "sl_inv (sl_step m op)" and "sl_set (sl_step m op) = set_step (sl_set m) op"
    using sl.add_inv sl.add_words sl.remove_inv sl.remove_words by (cases op; simp)+
qed

lemma sl_run_ok: "run_ok step (\<lambda>_ _. True) s ops"
  by (induction ops arbitrary: s) simp_all

lemma sl_reachable:
  shows "sl_inv (foldl sl_step (sl_NewManager initial) ops)"
    and "sl_set (foldl sl_step (sl_NewManager initial) ops) =
      foldl set_step (sl_normalize ` set initial - {[]}) ops"
  using sl_run.run_inv [OF sl_NewManager_ok(1) sl_run_ok]
    sl_run.run_refines [OF sl_NewManager_ok(1) sl_run_ok] sl_NewManager_ok(2) by simp_all

text \<open>
  C10: the stop list refines a set of words in normal form. After \<open>NewManager\<close> on any words and any
  sequence of \<open>Add\<close> and \<open>Remove\<close>, \<open>Contains\<close> is membership of the normal form in the set that the same
  operations compute (starting from the non-empty normal forms of the initial words), \<open>List\<close> is that set
  in ascending order without duplicates, \<open>Size\<close> is its cardinality, and a further \<open>Add\<close> or \<open>Remove\<close>
  reports true exactly if it changes the set.
\<close>

theorem stoplist_refines_set:
  fixes initial ops
  defines "m \<equiv> foldl sl_step (sl_NewManager initial) ops"
  defines "S \<equiv> foldl set_step (sl_normalize ` set initial - {[]}) ops"
  shows "(sl_Contains m v \<longleftrightarrow> sl_normalize v \<in> S) \<and> sl_List m = sorted_list_of_set S \<and>
    sl_Size m = int (card S) \<and> (fst (sl_Add m v) \<longleftrightarrow> set_step S (SlAdd v) \<noteq> S) \<and>
    (fst (sl_Remove m v) \<longleftrightarrow> set_step S (SlRemove v) \<noteq> S)"
proof -
  have inv: "sl_inv m" and S: "sl_set m = S" using sl_reachable by (simp_all add: m_def S_def)
  show ?thesis
    using sl.contains_words [OF inv] sl.list_sorted [OF inv] sl.size_card [OF inv]
      sl.add_result [OF inv] sl.add_words [OF inv] sl.remove_result [OF inv] sl.remove_words [OF inv]
    by (simp add: S)
qed

text \<open>
  A word is on the list right after it is added, unless it normalises to nothing; it is off the list
  right after it is removed; no other word is affected, and \<open>Remove\<close> undoes a successful \<open>Add\<close>.
\<close>

lemma stoplist_add_remove:
  fixes initial ops
  defines "m \<equiv> foldl sl_step (sl_NewManager initial) ops"
  shows "(sl_Contains (snd (sl_Add m w)) v \<longleftrightarrow>
      sl_Contains m v \<or> sl_normalize v = sl_normalize w \<and> sl_normalize w \<noteq> []) \<and>
    (sl_Contains (snd (sl_Remove m w)) v \<longleftrightarrow> sl_Contains m v \<and> sl_normalize v \<noteq> sl_normalize w) \<and>
    (\<not> fst (sl_Add m w) \<or> sl_List (snd (sl_Remove (snd (sl_Add m w)) w)) = sl_List m)"
proof -
  have inv: "sl_inv m" using sl_reachable(1) by (simp add: m_def)
  then have "sl_List (snd (sl_Remove (snd (sl_Add m w)) w)) = sl_List m" if "fst (sl_Add m w)"
    using that sl.remove_add [OF inv] sl.list_sorted sl.add_inv sl.remove_inv by simp
  then show ?thesis using sl.contains_add [OF inv] sl.contains_remove [OF inv] by blast
qed

section \<open>Agreement with the query normaliser\<close>

lemma core_stop_runes:
  assumes "\<forall>r\<in>set rs. \<not> (IsSpace r \<and> IsControl r)"
  shows "core (stop_runes rs) C prev = core rs C prev"
  using assms by (induction rs C prev rule: core.induct) (auto simp: stop_runes_def)

lemma canonical_stop_runes:
  "\<forall>r\<in>set rs. \<not> (IsSpace r \<and> IsControl r) \<Longrightarrow> canonical (stop_runes rs) = canonical rs"
  by (simp add: core_stop_runes flip: core_canonical)

text \<open>
  C28: on a query without white space that is also a control character (tab, line feed, vertical tab,
  form feed, carriage return, next line), the stop list's normaliser returns the same text as
  \<open>NormalizeQuery\<close>, and it always fixes what \<open>NormalizeQuery\<close> returns: the stop list and the counters
  then use the same key.
\<close>

theorem stoplist_agrees_with_NormalizeQuery:
  assumes "NormalizeQuery s n = Inr q"
  shows "sl_normalize q = q \<and>
    ((\<forall>r\<in>set (runes s). \<not> (IsSpace r \<and> IsControl r)) \<longrightarrow> sl_normalize s = q)"
proof -
  note q = NormalizeQuery_InrD [OF assms]
  have "sl_normalize q = q" using runes_valid by (intro sl_normalize_normal [OF q(3) _ q(1)]) blast
  moreover have "sl_normalize s = q" if "\<forall>r\<in>set (runes s). \<not> (IsSpace r \<and> IsControl r)"
    using canonical_stop_runes [OF that] q(1) by (simp add: sl_normalize_eq)
  ultimately show ?thesis by blast
qed

theorem stoplist_agrees_with_NormalizeQuery_witness:
  "NormalizeQuery '' Spam  word'' 64 = Inr ''spam word'' \<and> sl_normalize '' Spam  word'' = ''spam word''"
proof -
  have n: "NormalizeQuery '' Spam  word'' 64 = Inr ''spam word''"
      "\<forall>r\<in>set (runes '' Spam  word''). \<not> (IsSpace r \<and> IsControl r)" by code_simp+
  then show ?thesis using stoplist_agrees_with_NormalizeQuery [OF n(1)] by blast
qed

end
