(* ===== verification/Go_Fmt.thy ===== *)
theory Go_Fmt
  imports Go_Strings
begin

text \<open>
  The text formatting the programs use: \<open>fmt.Sprint\<close> of an integer, the verbs \<open>%d\<close> and \<open>%0nd\<close>,
  \<open>hex.EncodeToString\<close> and \<open>strings.Split\<close> at a comma. Formatted integers and hexadecimal texts are
  printable ASCII, so \<open>TrimSpace\<close> leaves them alone.
\<close>

section \<open>Definitions\<close>

fun digits :: "nat \<Rightarrow> string" where
  "digits n = (if n < 10 then [char_of (48 + n)] else digits (n div 10) @ [char_of (48 + n mod 10)])"

declare digits.simps [simp del]

definition fmt_Sprint :: "int \<Rightarrow> string" where
  "fmt_Sprint n = (if n < 0 then CHR ''-'' # digits (nat (- n)) else digits (nat n))"

text \<open>\<open>%0wd\<close> for a number that is not negative.\<close>

definition fmt_pad :: "nat \<Rightarrow> int \<Rightarrow> string" where
  "fmt_pad w n = (let ds = fmt_Sprint n in replicate (w - length ds) (CHR ''0'') @ ds)"

definition hex_digit :: "nat \<Rightarrow> char" where
  "hex_digit n = (if n < 10 then char_of (48 + n) else char_of (87 + n))"

fun hex_EncodeToString :: "string \<Rightarrow> string" where
  "hex_EncodeToString [] = []"
| "hex_EncodeToString (c # cs) =
     (let n = (of_char c :: nat) in hex_digit (n div 16) # hex_digit (n mod 16) # hex_EncodeToString cs)"

fun split_comma :: "string \<Rightarrow> string list" where
  "split_comma [] = [[]]"
| "split_comma (c # cs) =
     (if c = CHR '','' then [] # split_comma cs
      else (c # hd (split_comma cs)) # tl (split_comma cs))"

section \<open>Printable text\<close>

definition printable :: "char \<Rightarrow> bool" where
  "printable c \<longleftrightarrow> 33 \<le> (of_char c :: nat) \<and> (of_char c :: nat) < 127"

lemma byte_nat: "byte c = int (of_char c)"
  by (simp add: of_nat_of_char)

lemma digits_printable: "list_all printable (digits n) \<and> digits n \<noteq> []"
proof (induction n rule: digits.induct)
  case (1 n)
  have d: "printable (char_of (48 + k))" if "k < 10" for k :: nat
    using that by (simp add: printable_def)
  show ?case
    using 1 d [of n] d [of "n mod 10"] by (simp add: digits.simps [of n])
qed

lemma fmt_Sprint_printable [simp]: "list_all printable (fmt_Sprint n)" "fmt_Sprint n \<noteq> []"
  using digits_printable by (auto simp: fmt_Sprint_def printable_def)

lemma fmt_pad_printable [simp]: "list_all printable (fmt_pad w n)" "fmt_pad w n \<noteq> []"
  by (simp_all add: fmt_pad_def Let_def) (simp add: list_all_iff printable_def)

lemma hex_digit_printable: "n < 16 \<Longrightarrow> printable (hex_digit n)"
  by (simp add: hex_digit_def printable_def)

lemma hex_printable [simp]: "list_all printable (hex_EncodeToString cs)"
proof (induction cs)
  case (Cons c cs)
  have "(of_char c :: nat) < 256" by simp
  then have "(of_char c :: nat) div 16 < 16" "(of_char c :: nat) mod 16 < 16" by linarith+
  then show ?case using Cons hex_digit_printable by (simp add: Let_def)
qed simp

lemma segments_ascii: "\<forall>c\<in>set s. byte c < 128 \<Longrightarrow> segments s = map (\<lambda>c. (byte c, [c])) s"
  by (induction s) (simp_all add: segments.simps)

lemma TrimSpace_printable: "list_all printable s \<Longrightarrow> TrimSpace s = s"
proof -
  assume p: "list_all printable s"
  then have b: "33 \<le> byte c \<and> byte c < 127" if "c \<in> set s" for c
    using that by (simp add: list_all_iff printable_def byte_nat)
  then have seg: "segments s = map (\<lambda>c. (byte c, [c])) s" by (intro segments_ascii) force
  have "\<not> IsSpace (byte c)" if "c \<in> set s" for c
    using b [OF that] by (auto simp: IsSpace_def)
  then have "trim (\<lambda>(r, b). IsSpace r) (segments s) = segments s"
    unfolding seg by (intro trim_id) (auto simp: hd_map last_map)
  moreover have "concat (map (snd \<circ> (\<lambda>c. (byte c, [c]))) s) = s" by (induction s) simp_all
  ultimately show ?thesis by (simp add: TrimSpace_def seg)
qed

section \<open>Hexadecimal text determines the bytes\<close>

lemma hex_digit_inject: "m < 16 \<Longrightarrow> n < 16 \<Longrightarrow> hex_digit m = hex_digit n \<Longrightarrow> m = n"
proof -
  assume "m < 16" "n < 16" and "hex_digit m = hex_digit n"
  then have "(of_char (hex_digit m) :: nat) = of_char (hex_digit n)" by simp
  then show "m = n" using \<open>m < 16\<close> \<open>n < 16\<close> by (simp add: hex_digit_def split: if_splits)
qed

lemma length_hex [simp]: "length (hex_EncodeToString cs) = 2 * length cs"
  by (induction cs) (simp_all add: Let_def)

lemma hex_inject: "hex_EncodeToString cs = hex_EncodeToString ds \<Longrightarrow> cs = ds"
proof (induction cs arbitrary: ds)
  case Nil
  then have "length (hex_EncodeToString ds) = 0" by simp
  then show ?case by simp
next
  case (Cons c cs)
  then have "length (hex_EncodeToString ds) = 2 * length (c # cs)" by (metis length_hex)
  then obtain d ds' where ds: "ds = d # ds'" by (cases ds) simp_all
  let ?c = "of_char c :: nat" and ?d = "of_char d :: nat"
  have "hex_digit (?c div 16) = hex_digit (?d div 16)" "hex_digit (?c mod 16) = hex_digit (?d mod 16)"
    and t: "hex_EncodeToString cs = hex_EncodeToString ds'"
    using Cons.prems by (simp_all add: ds Let_def)
  moreover have "?c < 256" "?d < 256" by simp_all
  then have "?c div 16 < 16" "?d div 16 < 16" "?c mod 16 < 16" "?d mod 16 < 16" by linarith+
  ultimately have "?c div 16 = ?d div 16" "?c mod 16 = ?d mod 16" using hex_digit_inject by blast+
  then have "?c = ?d" by (metis div_mult_mod_eq)
  then show ?case using Cons.IH [OF t] ds by simp
qed

section \<open>Splitting at commas\<close>

fun join_comma :: "string list \<Rightarrow> string" where
  "join_comma [] = []"
| "join_comma [p] = p"
| "join_comma (p # ps) = p @ CHR '','' # join_comma ps"

lemma split_comma_nonempty [simp]: "split_comma s \<noteq> []"
  by (cases s) simp_all

lemma split_comma_parts: "p \<in> set (split_comma s) \<Longrightarrow> CHR '','' \<notin> set p"
proof (induction s arbitrary: p)
  case (Cons c cs)
  then show ?case by (cases "split_comma cs") (auto split: if_splits)
qed simp

lemma join_split_comma: "join_comma (split_comma s) = s"
proof (induction s)
  case (Cons c cs)
  obtain q qs where q: "split_comma cs = q # qs" by (cases "split_comma cs") simp_all
  then show ?case using Cons by (cases qs) auto
qed simp

end
