(* ===== verification/Server.thy ===== *)
theory Server
  imports Aggregator_Exact Stoplist Go_Fmt "HOL-Library.Word"
begin

text \<open>
  \<open>internal/server\<close>: the gRPC handlers of \<open>search_trends.go\<close>, the metrics interceptor, and the
  constructors of the two servers. The handlers call their dependencies through the interfaces
  \<open>TopProvider\<close> and \<open>StopWords\<close>, which are arguments here; the locales below state what the handlers rely
  on and are interpreted on the aggregator and the stop-list manager. Integers of the protobuf messages
  keep their width. \<open>grpc.Server\<close>, \<open>net.Listen\<close> and \<open>http.Server\<close> are arguments of the \<open>Run\<close> methods.
\<close>

unbundle bit_operations_syntax

section \<open>Status errors\<close>

datatype grpc_code = CodeOK | CodeCanceled | CodeInvalidArgument | CodeDeadlineExceeded | CodeInternal

text \<open>The message of a status: a constant text, the text of an error, or a text formatted with one.\<close>

datatype status_message = Msg string | MsgOf go_error | MsgFmt string go_error

datatype status_error = StatusError (status_code: grpc_code) (status_msg: status_message)

definition toStatusError :: "go_error option \<Rightarrow> status_error option" where
  "toStatusError err =
     (case err of
        None \<Rightarrow> None
      | Some e \<Rightarrow>
          if errors_Is e Canceled then Some (StatusError CodeCanceled (MsgOf e))
          else if errors_Is e DeadlineExceeded then Some (StatusError CodeDeadlineExceeded (MsgOf e))
          else Some (StatusError CodeInternal (MsgOf e)))"

text \<open>\<open>return nil, toStatusError(err)\<close> for an error that is not nil.\<close>

definition statusOf :: "go_error \<Rightarrow> status_error" where
  "statusOf e = the (toStatusError (Some e))"

section \<open>The handlers\<close>

record get_top_response =
  gr_Items :: "(string \<times> 64 word) list"
  gr_GeneratedAt :: gotime
  gr_WindowSeconds :: "32 word"

record stop_word_response =
  sw_Word :: string
  sw_Applied :: bool
  sw_Message :: string

record health_response =
  hc_Status :: string
  hc_CheckedAt :: gotime

text \<open>Which of the arguments are not nil.\<close>

definition NewSearchTrendsHandler :: "bool \<Rightarrow> bool \<Rightarrow> bool \<Rightarrow> go_error option" where
  "NewSearchTrendsHandler topProvider stopWords logger =
     (if \<not> topProvider then Some (ErrNew ''top provider is required'')
      else if \<not> stopWords then Some (ErrNew ''stop words manager is required'')
      else if \<not> logger then Some (ErrNew ''logger is required'')
      else None)"

definition maxInt :: "64 word" where
  "maxInt = drop_bit 1 (NOT 0)"

fun convertItems :: "top_item list \<Rightarrow> (string \<times> 64 word) list" where
  "convertItems [] = []"
| "convertItems (item # rest) =
     (if Count item \<le> 0 then convertItems rest
      else (Query item, word_of_int (Count item)) # convertItems rest)"

definition srv_GetTop ::
  "(ctx \<Rightarrow> int \<Rightarrow> go_error + snapshot) \<Rightarrow> ctx \<Rightarrow> 32 word option \<Rightarrow> status_error + get_top_response" where
  "srv_GetTop topProvider_Snapshot c req =
     (case (case req of
              None \<Rightarrow> Inr 0
            | Some l \<Rightarrow>
                if (ucast l :: 64 word) > maxInt
                then Inl (StatusError CodeInvalidArgument (Msg ''limit is too large''))
                else Inr (uint l)) of
        Inl err \<Rightarrow> Inl err
      | Inr limit \<Rightarrow>
          (case topProvider_Snapshot c limit of
             Inl err \<Rightarrow> Inl (statusOf err)
           | Inr snap \<Rightarrow>
               Inr \<lparr>gr_Items = convertItems (Items snap), gr_GeneratedAt = GeneratedAt snap,
                    gr_WindowSeconds = word_of_int (WindowSeconds snap)\<rparr>))"

definition validateStopWordRequest :: "string option \<Rightarrow> status_error + string" where
  "validateStopWordRequest req =
     (case req of
        None \<Rightarrow> Inl (StatusError CodeInvalidArgument (Msg ''request is required''))
      | Some reqWord \<Rightarrow>
          (let word = TrimSpace reqWord
           in if word = [] then Inl (StatusError CodeInvalidArgument (Msg ''word is required''))
              else (case NormalizeQuery word 256 of
                      Inl err \<Rightarrow> Inl (StatusError CodeInvalidArgument (MsgFmt ''invalid word'' err))
                    | Inr normalized \<Rightarrow> Inr normalized)))"

definition observeStopListOperation :: "bool \<Rightarrow> string \<Rightarrow> string \<Rightarrow> metric_call list" where
  "observeStopListOperation metrics operation status =
     emit metrics [ObserveStopListOperation operation status]"

definition setStopListSize :: "bool \<Rightarrow> int \<Rightarrow> metric_call list" where
  "setStopListSize metrics n = emit metrics [SetStopListSize n]"

definition srv_AddStopWord ::
  "('m \<Rightarrow> string \<Rightarrow> bool \<times> 'm) \<Rightarrow> ('m \<Rightarrow> int) \<Rightarrow> bool \<Rightarrow> ctx \<Rightarrow> string option \<Rightarrow> 'm \<Rightarrow>
   (status_error + stop_word_response) \<times> 'm \<times> metric_call list" where
  "srv_AddStopWord stopWords_Add stopWords_Size metrics c req m =
     (case c of
        Some err \<Rightarrow> (Inl (statusOf err), m, [])
      | None \<Rightarrow>
          (case validateStopWordRequest req of
             Inl err \<Rightarrow> (Inl err, m, observeStopListOperation metrics ''add'' ''failed'')
           | Inr word \<Rightarrow>
               (let (applied, m') = stopWords_Add m word;
                    message = (if \<not> applied then ''already exists'' else ''added'');
                    operationStatus = (if \<not> applied then ''failed'' else ''success'')
                in (Inr \<lparr>sw_Word = word, sw_Applied = applied, sw_Message = message\<rparr>, m',
                    observeStopListOperation metrics ''add'' operationStatus @
                    setStopListSize metrics (stopWords_Size m')))))"

definition srv_RemoveStopWord ::
  "('m \<Rightarrow> string \<Rightarrow> bool \<times> 'm) \<Rightarrow> ('m \<Rightarrow> int) \<Rightarrow> bool \<Rightarrow> ctx \<Rightarrow> string option \<Rightarrow> 'm \<Rightarrow>
   (status_error + stop_word_response) \<times> 'm \<times> metric_call list" where
  "srv_RemoveStopWord stopWords_Remove stopWords_Size metrics c req m =
     (case c of
        Some err \<Rightarrow> (Inl (statusOf err), m, [])
      | None \<Rightarrow>
          (case validateStopWordRequest req of
             Inl err \<Rightarrow> (Inl err, m, observeStopListOperation metrics ''remove'' ''failed'')
           | Inr word \<Rightarrow>
               (let (applied, m') = stopWords_Remove m word;
                    message = (if \<not> applied then ''not found'' else ''removed'');
                    operationStatus = (if \<not> applied then ''failed'' else ''success'')
                in (Inr \<lparr>sw_Word = word, sw_Applied = applied, sw_Message = message\<rparr>, m',
                    observeStopListOperation metrics ''remove'' operationStatus @
                    setStopListSize metrics (stopWords_Size m')))))"

definition srv_ListStopWords ::
  "('m \<Rightarrow> string list) \<Rightarrow> ('m \<Rightarrow> int) \<Rightarrow> bool \<Rightarrow> ctx \<Rightarrow> 'm \<Rightarrow>
   (status_error + string list) \<times> metric_call list" where
  "srv_ListStopWords stopWords_List stopWords_Size metrics c m =
     (case c of
        Some err \<Rightarrow> (Inl (statusOf err), [])
      | None \<Rightarrow>
          (Inr (stopWords_List m),
           observeStopListOperation metrics ''list'' ''success'' @
           setStopListSize metrics (stopWords_Size m)))"

definition srv_HealthCheck :: "ctx \<Rightarrow> gotime \<Rightarrow> status_error + health_response" where
  "srv_HealthCheck c now =
     (case c of
        Some err \<Rightarrow> Inl (statusOf err)
      | None \<Rightarrow> Inr \<lparr>hc_Status = ''SERVING'', hc_CheckedAt = time_UTC now\<rparr>)"

section \<open>The interceptor\<close>

fun code_String :: "grpc_code \<Rightarrow> string" where
  "code_String CodeOK = ''OK''"
| "code_String CodeCanceled = ''Canceled''"
| "code_String CodeInvalidArgument = ''InvalidArgument''"
| "code_String CodeDeadlineExceeded = ''DeadlineExceeded''"
| "code_String CodeInternal = ''Internal''"

definition status_Code :: "status_error + 'r \<Rightarrow> grpc_code" where
  "status_Code r = (case r of Inl err \<Rightarrow> status_code err | Inr _ \<Rightarrow> CodeOK)"

definition unaryMetricsInterceptor ::
  "string \<Rightarrow> duration \<Rightarrow> (status_error + 'r) \<times> 's \<times> metric_call list \<Rightarrow>
   (status_error + 'r) \<times> 's \<times> metric_call list" where
  "unaryMetricsInterceptor fullMethod elapsed result =
     (case result of (resp, s, calls) \<Rightarrow>
        (resp, s, calls @ [ObserveGRPCRequest fullMethod (code_String (status_Code resp)) elapsed]))"

section \<open>The servers\<close>

definition NewGRPCServer :: "string \<Rightarrow> bool \<Rightarrow> bool \<Rightarrow> bool \<Rightarrow> go_error option" where
  "NewGRPCServer address topProvider stopWords logger =
     (if address = [] then Some (ErrNew ''grpc address is required'')
      else if \<not> topProvider then Some (ErrNew ''top provider is required'')
      else if \<not> stopWords then Some (ErrNew ''stop words manager is required'')
      else if \<not> logger then Some (ErrNew ''logger is required'')
      else (case NewSearchTrendsHandler topProvider stopWords logger of
              Some err \<Rightarrow> Some (ErrWrap ''create search trends handler'' err)
            | None \<Rightarrow> None))"

text \<open>\<open>listen\<close> is the error of \<open>net.Listen\<close>, \<open>serve\<close> what \<open>Serve\<close> returns in the end.\<close>

definition GRPCServer_Run ::
  "go_error \<Rightarrow> go_error option \<Rightarrow> go_error option \<Rightarrow> go_error option" where
  "GRPCServer_Run errServerStopped listen serve =
     (case listen of
        Some err \<Rightarrow> Some err
      | None \<Rightarrow>
          (case serve of
             Some err \<Rightarrow> if errors_Is err errServerStopped then None else Some err
           | None \<Rightarrow> None))"

record metrics_server =
  ms_address :: string
  ms_path :: string

definition net_JoinHostPort :: "string \<Rightarrow> string \<Rightarrow> string" where
  "net_JoinHostPort host port =
     (if CHR '':'' \<in> set host then ''['' @ host @ '']:'' @ port else host @ '':'' @ port)"

definition NewMetricsServer :: "string \<Rightarrow> int \<Rightarrow> string \<Rightarrow> metrics_server" where
  "NewMetricsServer host0 port0 path0 =
     (let host = (if host0 = [] then ''0.0.0.0'' else host0);
          port = (if port0 = 0 then 2112 else port0);
          path = (if path0 = [] then ''/metrics'' else path0)
      in \<lparr>ms_address = net_JoinHostPort host (fmt_Sprint port), ms_path = path\<rparr>)"

text \<open>
  The routes of the metrics server. \<open>http.ServeMux\<close> panics when a pattern has no slash and when a pattern is
  registered twice; that is \<open>None\<close>. Patterns are literal here: the methods, wild cards and escapes of the
  pattern syntax (a space, braces, a percent sign) are left out, and \<open>literal_path\<close> is assumed where it matters.
\<close>

definition literal_path :: "string \<Rightarrow> bool" where
  "literal_path p \<longleftrightarrow> list_all (\<lambda>c. 33 \<le> byte c \<and> byte c < 127) p \<and> set ''{}%'' \<inter> set p = {}"

datatype route = RouteMetrics | RouteHealthz

definition mux_Handle :: "(string \<times> route) list \<Rightarrow> string \<Rightarrow> route \<Rightarrow> (string \<times> route) list option" where
  "mux_Handle mux pattern r =
     (if CHR ''/'' \<notin> set pattern \<or> pattern \<in> fst ` set mux then None else Some (mux @ [(pattern, r)]))"

definition MetricsServer_Handler :: "metrics_server \<Rightarrow> (string \<times> route) list option" where
  "MetricsServer_Handler s =
     Option.bind (mux_Handle [] (ms_path s) RouteMetrics)
       (\<lambda>mux. mux_Handle mux ''/healthz'' RouteHealthz)"

record http_server =
  hs_Addr :: string
  hs_Handler :: "(string \<times> route) list"
  hs_ReadHeaderTimeout :: duration

definition MetricsServer_HTTPServer :: "metrics_server \<Rightarrow> http_server option" where
  "MetricsServer_HTTPServer s =
     map_option (\<lambda>mux. \<lparr>hs_Addr = ms_address s, hs_Handler = mux, hs_ReadHeaderTimeout = 3 * second\<rparr>)
       (MetricsServer_Handler s)"

text \<open>\<open>listenAndServe\<close> is what \<open>ListenAndServe\<close> of the given server returns in the end.\<close>

definition MetricsServer_Run ::
  "go_error \<Rightarrow> (http_server \<Rightarrow> go_error option) \<Rightarrow> metrics_server \<Rightarrow> go_error option option" where
  "MetricsServer_Run errServerClosed listenAndServe s =
     (case MetricsServer_HTTPServer s of
        None \<Rightarrow> None
      | Some server \<Rightarrow>
          Some (case listenAndServe server of
                  Some err \<Rightarrow> if errors_Is err errServerClosed then None else Some err
                | None \<Rightarrow> None))"

section \<open>The read path\<close>

lemma maxInt_eq: "uint maxInt = maxInt64"
  by (simp add: maxInt_def mask_eq_exp_minus_1)

lemma limit_never_too_large: "\<not> (ucast (l :: 32 word) :: 64 word) > maxInt"
proof -
  have "uint l < 2 ^ 32" using uint_lt2p [of l] by simp
  then show ?thesis by (simp add: word_less_def maxInt_eq uint_up_ucast is_up)
qed

text \<open>
  What \<open>GetTop\<close> relies on: the provider fails only with the error of the context, and its items have
  positive counts that fit a signed 64-bit integer.
\<close>

locale top_provider =
  fixes provider_inv :: "'s \<Rightarrow> bool"
    and provider_Snapshot :: "'s \<Rightarrow> ctx \<Rightarrow> int \<Rightarrow> go_error + snapshot"
  assumes snapshot_done: "provider_Snapshot s (Some e) limit = Inl e"
    and snapshot_live: "provider_inv s \<Longrightarrow> \<exists>sn. provider_Snapshot s None limit = Inr sn \<and>
      (\<forall>x\<in>set (Items sn). 0 < Count x \<and> Count x \<le> maxInt64)"
begin

lemma convertItems_exact:
  "\<forall>x\<in>set items. 0 < Count x \<and> Count x \<le> maxInt64 \<Longrightarrow>
   map (\<lambda>(q, n). TopItem q (uint n)) (convertItems items) = items"
  by (induction items) (auto simp: uint_word_of_int)

lemma GetTop_live:
  assumes "provider_inv s"
  obtains sn resp where
    "provider_Snapshot s None (case req of None \<Rightarrow> 0 | Some l \<Rightarrow> uint l) = Inr sn"
    "srv_GetTop (provider_Snapshot s) None req = Inr resp"
    "map (\<lambda>(q, n). TopItem q (uint n)) (gr_Items resp) = Items sn"
    "gr_GeneratedAt resp = GeneratedAt sn"
    "gr_WindowSeconds resp = word_of_int (WindowSeconds sn)"
proof -
  let ?limit = "case req of None \<Rightarrow> 0 | Some l \<Rightarrow> uint l"
  obtain sn where sn: "provider_Snapshot s None ?limit = Inr sn"
      "\<forall>x\<in>set (Items sn). 0 < Count x \<and> Count x \<le> maxInt64"
    using snapshot_live [OF assms] by blast
  have "(case req of None \<Rightarrow> Inr 0 | Some l \<Rightarrow>
      if (ucast l :: 64 word) > maxInt then Inl (StatusError CodeInvalidArgument (Msg ''limit is too large''))
      else Inr (uint l)) = Inr ?limit"
    using limit_never_too_large by (auto split: option.splits)
  then show ?thesis
    using that sn convertItems_exact [OF sn(2)] by (simp add: srv_GetTop_def)
qed

lemma GetTop_done:
  "errors_Is e Canceled \<or> errors_Is e DeadlineExceeded \<Longrightarrow>
   \<exists>err. srv_GetTop (provider_Snapshot s) (Some e) req = Inl err \<and>
     status_code err \<in> {CodeCanceled, CodeDeadlineExceeded}"
  using limit_never_too_large
  by (auto simp: srv_GetTop_def snapshot_done statusOf_def toStatusError_def split: option.splits)

end

interpretation agg_top: top_provider "\<lambda>a. \<exists>n. agg_inv n a" agg_Snapshot
proof
  fix a :: aggregator and e limit
  show "agg_Snapshot a (Some e) limit = Inl e" by (simp add: agg_Snapshot_def agg_GetTop_def)
  assume "\<exists>n. agg_inv n a"
  then obtain n where "agg_inv n a" by blast
  then obtain items where g: "agg_GetTop a None limit = Inr (items, topGeneratedAt a)"
      "top_wf (normalizeLimit a limit) items"
    by (rule agg_GetTop_inv)
  then show "\<exists>sn. agg_Snapshot a None limit = Inr sn \<and>
      (\<forall>x\<in>set (Items sn). 0 < Count x \<and> Count x \<le> maxInt64)"
    by (simp add: agg_Snapshot_def top_wf_def)
qed

text \<open>
  C19: the gRPC \<open>GetTop\<close> serves the cached Top-N unchanged. In every state of the aggregator that its
  operations can reach, a request with a live context is answered, never with "limit is too large": the
  response has exactly the items that the aggregator's \<open>GetTop\<close> returns for the requested limit (0, and so
  the default, for a missing request), none dropped and no count wrapped, at most the maximum limit of
  them, strictly ordered.
\<close>

theorem grpc_GetTop_serves_cache:
  assumes "agg_New cfg0 now0 = Inr (a0, ms)" and "int (length ops) \<le> maxInt64"
  defines "a \<equiv> foldl agg_step a0 ops"
  shows "\<exists>resp items. srv_GetTop (agg_Snapshot a) None req = Inr resp \<and>
    agg_GetTop a None (case req of None \<Rightarrow> 0 | Some l \<Rightarrow> uint l) = Inr (items, gr_GeneratedAt resp) \<and>
    map (\<lambda>(q, n). TopItem q (uint n)) (gr_Items resp) = items \<and> top_wf (MaxLimit cfg0) items"
proof -
  let ?limit = "case req of None \<Rightarrow> 0 | Some l \<Rightarrow> uint l"
  have inv: "agg_inv (int (length ops)) a"
    using agg_run_window(1) [OF assms(1,2)] by (simp add: sim_inv_def counted_inv_def a_def)
  obtain items where g: "agg_GetTop a None ?limit = Inr (items, topGeneratedAt a)"
      "top_wf (normalizeLimit a ?limit) items" "normalizeLimit a ?limit \<le> MaxLimit (agg_cfg a)"
    using inv by (rule agg_GetTop_inv)
  obtain sn resp where r: "agg_Snapshot a None ?limit = Inr sn"
      "srv_GetTop (agg_Snapshot a) None req = Inr resp"
      "map (\<lambda>(q, n). TopItem q (uint n)) (gr_Items resp) = Items sn" "gr_GeneratedAt resp = GeneratedAt sn"
    using agg_top.GetTop_live inv by metis
  have "MaxLimit (agg_cfg a) = MaxLimit cfg0" using agg_New_Inr [OF assms(1)] by (simp add: a_def)
  then have "top_wf (MaxLimit cfg0) items" using g(2,3) by (auto simp: top_wf_def)
  then show ?thesis using g(1) r by (auto simp: agg_Snapshot_def)
qed

theorem grpc_GetTop_serves_cache_witness:
  "\<exists>resp items. srv_GetTop (agg_Snapshot (sample_agg 3 0)) None (Some 5) = Inr resp \<and>
    agg_GetTop (sample_agg 3 0) None 5 = Inr (items, gr_GeneratedAt resp) \<and>
    map (\<lambda>(q, n). TopItem q (uint n)) (gr_Items resp) = items \<and> top_wf 10 items"
  using grpc_GetTop_serves_cache [OF sample_New, of 3 "[]" 0 "Some 5"] by (simp add: sample_cfg_def)

section \<open>The administration of the stop list\<close>

text \<open>
  The handlers normalise a word with \<open>NormalizeQuery\<close> before they call the stop list, so they rely on the
  stop list's normaliser to leave such a word alone.
\<close>

locale admin_words = stop_words +
  assumes norm_query: "NormalizeQuery w n = Inr q \<Longrightarrow> norm q = q \<and> q \<noteq> []"
begin

lemma validate_norm: "validateStopWordRequest req = Inr q \<Longrightarrow> norm q = q \<and> q \<noteq> []"
  using norm_query by (auto simp: validateStopWordRequest_def Let_def split: option.splits if_splits sum.splits)

lemma AddStopWord_valid:
  assumes "words_inv m" and "validateStopWordRequest req = Inr q"
    and "srv_AddStopWord add_word words_size metrics None req m = (r, m', ms)"
  shows "r = Inr \<lparr>sw_Word = q, sw_Applied = (q \<notin> words_of m),
      sw_Message = (if q \<in> words_of m then ''already exists'' else ''added'')\<rparr>"
    and "words_of m' = insert q (words_of m)" and "words_inv m'"
    and "ms = observeStopListOperation metrics ''add'' (if q \<in> words_of m then ''failed'' else ''success'') @
      setStopListSize metrics (int (card (insert q (words_of m))))"
proof -
  have q: "norm q = q" "q \<noteq> []" using validate_norm [OF assms(2)] by auto
  obtain ap where ad: "add_word m q = (ap, m')" using assms(2,3)
    by (auto simp: srv_AddStopWord_def Let_def split: prod.splits)
  have w: "words_of m' = insert q (words_of m)" and i: "words_inv m'"
    using add_words [OF assms(1), of q] add_inv [OF assms(1), of q] q ad by auto
  moreover have "ap \<longleftrightarrow> q \<notin> words_of m" using add_result [OF assms(1), of q] ad w by auto
  moreover have "srv_AddStopWord add_word words_size metrics None req m =
      (Inr \<lparr>sw_Word = q, sw_Applied = ap, sw_Message = (if \<not> ap then ''already exists'' else ''added'')\<rparr>, m',
       observeStopListOperation metrics ''add'' (if \<not> ap then ''failed'' else ''success'') @
       setStopListSize metrics (words_size m'))"
    using assms(2) ad by (simp add: srv_AddStopWord_def)
  ultimately show "words_of m' = insert q (words_of m)" "words_inv m'"
    "r = Inr \<lparr>sw_Word = q, sw_Applied = (q \<notin> words_of m),
      sw_Message = (if q \<in> words_of m then ''already exists'' else ''added'')\<rparr>"
    "ms = observeStopListOperation metrics ''add'' (if q \<in> words_of m then ''failed'' else ''success'') @
      setStopListSize metrics (int (card (insert q (words_of m))))"
    using assms(3) size_card [OF i] by simp_all
qed

lemma RemoveStopWord_valid:
  assumes "words_inv m" and "validateStopWordRequest req = Inr q"
    and "srv_RemoveStopWord remove_word words_size metrics None req m = (r, m', ms)"
  shows "r = Inr \<lparr>sw_Word = q, sw_Applied = (q \<in> words_of m),
      sw_Message = (if q \<in> words_of m then ''removed'' else ''not found'')\<rparr>"
    and "words_of m' = words_of m - {q}" and "words_inv m'"
    and "ms = observeStopListOperation metrics ''remove'' (if q \<in> words_of m then ''success'' else ''failed'') @
      setStopListSize metrics (int (card (words_of m - {q})))"
proof -
  have q: "norm q = q" "q \<noteq> []" using validate_norm [OF assms(2)] by auto
  obtain ap where rm: "remove_word m q = (ap, m')" using assms(2,3)
    by (auto simp: srv_RemoveStopWord_def Let_def split: prod.splits)
  have w: "words_of m' = words_of m - {q}" and i: "words_inv m'"
    using remove_words [OF assms(1), of q] remove_inv [OF assms(1), of q] q rm by auto
  moreover have "ap \<longleftrightarrow> q \<in> words_of m" using remove_result [OF assms(1), of q] rm w by auto
  moreover have "srv_RemoveStopWord remove_word words_size metrics None req m =
      (Inr \<lparr>sw_Word = q, sw_Applied = ap, sw_Message = (if \<not> ap then ''not found'' else ''removed'')\<rparr>, m',
       observeStopListOperation metrics ''remove'' (if \<not> ap then ''failed'' else ''success'') @
       setStopListSize metrics (words_size m'))"
    using assms(2) rm by (simp add: srv_RemoveStopWord_def)
  ultimately show "words_of m' = words_of m - {q}" "words_inv m'"
    "r = Inr \<lparr>sw_Word = q, sw_Applied = (q \<in> words_of m),
      sw_Message = (if q \<in> words_of m then ''removed'' else ''not found'')\<rparr>"
    "ms = observeStopListOperation metrics ''remove'' (if q \<in> words_of m then ''success'' else ''failed'') @
      setStopListSize metrics (int (card (words_of m - {q})))"
    using assms(3) size_card [OF i] by simp_all
qed

end

interpretation sl_admin:
  admin_words sl_inv sl_set sl_normalize sl_Contains sl_Add sl_Remove sl_List sl_Size
proof
  fix w n q
  assume "NormalizeQuery w n = Inr q"
  note q = NormalizeQuery_InrD [OF this]
  have "sl_normalize q = q" using runes_valid by (intro sl_normalize_normal [OF q(3) _ q(1)]) blast
  moreover have "q \<noteq> []" using q(1,2) by simp
  ultimately show "sl_normalize q = q \<and> q \<noteq> []" ..
qed

text \<open>
  C20: \<open>AddStopWord\<close> and \<open>RemoveStopWord\<close> do what they answer. For every stop list that its operations can
  reach and every request whose word normalises to \<open>q\<close>: adding answers with \<open>q\<close>, reports it applied exactly
  if it was not listed, lists exactly one word more, and blocks every query whose stop-list form is \<open>q\<close>;
  removing is the converse; and the gauge is set to the number of listed words.
\<close>

theorem grpc_stop_word_effect:
  fixes initial ops
  defines "m \<equiv> foldl sl_step (sl_NewManager initial) ops"
  assumes v: "validateStopWordRequest req = Inr q"
    and a: "srv_AddStopWord sl_Add sl_Size True None req m = (ra, ma, msa)"
    and r: "srv_RemoveStopWord sl_Remove sl_Size True None req m = (rr, mr, msr)"
  shows "ra = Inr \<lparr>sw_Word = q, sw_Applied = (q \<notin> set (sl_List m)),
      sw_Message = (if q \<in> set (sl_List m) then ''already exists'' else ''added'')\<rparr> \<and>
    set (sl_List ma) = insert q (set (sl_List m)) \<and>
    sl_Contains ma s = (sl_Contains m s \<or> sl_normalize s = q) \<and>
    last msa = SetStopListSize (int (length (sl_List ma))) \<and>
    rr = Inr \<lparr>sw_Word = q, sw_Applied = (q \<in> set (sl_List m)),
      sw_Message = (if q \<in> set (sl_List m) then ''removed'' else ''not found'')\<rparr> \<and>
    set (sl_List mr) = set (sl_List m) - {q} \<and>
    sl_Contains mr s = (sl_Contains m s \<and> sl_normalize s \<noteq> q) \<and>
    last msr = SetStopListSize (int (length (sl_List mr)))"
proof -
  have inv: "sl_inv m" using sl_reachable(1) by (simp add: m_def)
  note A = sl_admin.AddStopWord_valid [OF inv v a] and R = sl_admin.RemoveStopWord_valid [OF inv v r]
  have L: "set (sl_List m) = sl_set m" "set (sl_List ma) = sl_set ma" "set (sl_List mr) = sl_set mr"
    using sl.list_sorted sl.words_finite inv A(3) R(3) by simp_all
  have S: "sl_Size ma = int (card (sl_set ma))" "sl_Size mr = int (card (sl_set mr))"
      "sl_Size ma = int (length (sl_List ma))" "sl_Size mr = int (length (sl_List mr))"
    using sl.size_card sl.size_list A(3) R(3) by simp_all
  show ?thesis
    using A(1,2,4) R(1,2,4) L S sl.contains_words [OF inv] sl.contains_words [OF A(3)]
      sl.contains_words [OF R(3)]
    by (simp add: setStopListSize_def emit_def) blast
qed

theorem grpc_stop_word_effect_witness:
  "validateStopWordRequest (Some '' Spam'') = Inr ''spam'' \<and>
   sl_Contains (fst (snd (srv_AddStopWord sl_Add sl_Size True None (Some '' Spam'') (sl_NewManager [])))) ''SPAM''"
proof -
  have v: "validateStopWordRequest (Some '' Spam'') = Inr ''spam''" by code_simp
  have n: "sl_normalize ''SPAM'' = ''spam''" by code_simp
  obtain ra ma msa where a:
    "srv_AddStopWord sl_Add sl_Size True None (Some '' Spam'') (foldl sl_step (sl_NewManager []) []) = (ra, ma, msa)"
    by (metis prod.collapse)
  obtain rr mr msr where r:
    "srv_RemoveStopWord sl_Remove sl_Size True None (Some '' Spam'') (foldl sl_step (sl_NewManager []) []) = (rr, mr, msr)"
    by (metis prod.collapse)
  show ?thesis using grpc_stop_word_effect [OF v a r, of "''SPAM''"] v n a by simp
qed

text \<open>
  A rejected administration request changes nothing. If \<open>AddStopWord\<close> or \<open>RemoveStopWord\<close> returns an
  error then the stop list is unchanged and the status is \<open>InvalidArgument\<close> for a live context, and
  otherwise the status of the context's error, in which case no metric is recorded either.
\<close>

lemma grpc_stop_word_rejects:
  assumes "srv_AddStopWord add_w n_w metrics c req m = (Inl err, m', ms) \<or>
    srv_RemoveStopWord rem_w n_w metrics c req m = (Inl err, m', ms)"
  shows "m' = m \<and> (case c of None \<Rightarrow> status_code err = CodeInvalidArgument | Some e \<Rightarrow> err = statusOf e \<and> ms = [])"
  using assms
  by (auto simp: srv_AddStopWord_def srv_RemoveStopWord_def validateStopWordRequest_def Let_def
      split: option.splits sum.splits if_splits prod.splits)

section \<open>Small facts\<close>

lemma statusOf_ctx: "ctx_ok (Some e) \<Longrightarrow> status_code (statusOf e) \<in> {CodeCanceled, CodeDeadlineExceeded}"
  by (auto simp: ctx_ok_def statusOf_def toStatusError_def)

lemma interceptor_transparent:
  "fst (unaryMetricsInterceptor fm d r) = fst r" "fst (snd (unaryMetricsInterceptor fm d r)) = fst (snd r)"
  by (simp_all add: unaryMetricsInterceptor_def split: prod.splits)

lemma MetricsServer_Run_panics:
  "MetricsServer_Run errServerClosed listenAndServe s = None \<longleftrightarrow>
     CHR ''/'' \<notin> set (ms_path s) \<or> ms_path s = ''/healthz''"
  by (simp add: MetricsServer_Run_def MetricsServer_HTTPServer_def MetricsServer_Handler_def mux_Handle_def
      split: option.splits)

end
