(* ===== verification/Antispam.thy ===== *)
theory Antispam
  imports Metric_Calls
begin

text \<open>
  \<open>internal/antispam/limiter.go\<close>: the limiter of the first version of the service. It keeps no state
  besides its configuration; \<open>Allow\<close> polls the context, counts the check and allows the event.
\<close>

record spam_config =
  spam_Enabled :: bool
  MaxEventsPerIdentityPerMinute :: int
  MaxSameQueryPerIdentityPerWindow :: int
  spam_HasMetrics :: bool

record spam_event =
  sp_EventID :: string
  sp_Query :: string
  sp_UserIDHash :: string
  sp_SessionID :: string
  sp_IPHash :: string
  sp_Timestamp :: gotime

record decision =
  Allowed :: bool
  Reason :: string

record stats =
  ActiveKeys :: int

record limiter =
  lim_cfg :: spam_config
  lim_metrics :: bool

definition observeCheck :: "limiter \<Rightarrow> string \<Rightarrow> metric_call list" where
  "observeCheck l result = emit (lim_metrics l) [ObserveAntiSpamCheck result]"

definition setActiveKeys :: "limiter \<Rightarrow> int \<Rightarrow> metric_call list" where
  "setActiveKeys l cnt = emit (lim_metrics l) [SetAntiSpamActiveKeys cnt]"

definition NewLimiter :: "spam_config \<Rightarrow> limiter \<times> metric_call list" where
  "NewLimiter cfg =
     (let l = \<lparr>lim_cfg = cfg, lim_metrics = spam_HasMetrics cfg\<rparr> in (l, setActiveKeys l 0))"

definition spam_Allow ::
  "limiter \<Rightarrow> ctx \<Rightarrow> spam_event \<Rightarrow> (decision \<times> go_error option) \<times> metric_call list" where
  "spam_Allow l c event =
     (case c of
        Some err \<Rightarrow> ((\<lparr>Allowed = False, Reason = []\<rparr>, Some err), [])
      | None \<Rightarrow>
          if \<not> spam_Enabled (lim_cfg l)
          then ((\<lparr>Allowed = True, Reason = []\<rparr>, None), observeCheck l ''allowed'')
          else ((\<lparr>Allowed = True, Reason = []\<rparr>, None), observeCheck l ''allowed''))"

definition spam_Stats :: "limiter \<Rightarrow> stats" where
  "spam_Stats l = \<lparr>ActiveKeys = 0\<rparr>"

text \<open>
  The interface of a limiter as its caller uses it: an error is the context's error, and an event that
  is not allowed has no error.
\<close>

locale limiter_contract =
  fixes allow :: "'l \<Rightarrow> ctx \<Rightarrow> 'e \<Rightarrow> (decision \<times> go_error option) \<times> metric_call list"
  assumes allow_error: "snd (fst (allow l c e)) = Some err \<Longrightarrow> c = Some err"
    and allow_live: "c = None \<Longrightarrow> snd (fst (allow l c e)) = None"
begin

lemma allow_error_iff: "snd (fst (allow l c e)) = Some err \<Longrightarrow> ctx_ok c \<Longrightarrow> err = Canceled \<or> err = DeadlineExceeded"
  using allow_error by (fastforce simp: ctx_ok_def)

end

interpretation spam: limiter_contract spam_Allow
  by unfold_locales (auto simp: spam_Allow_def split: option.splits)

text \<open>
  The limiter never blocks an event. Whatever its configuration, enabled or not and with whatever
  limits, and whatever events came before, \<open>Allow\<close> with a live context allows the event and counts one
  check with result \<open>allowed\<close> when it has metrics; the decisions for a whole sequence of events from one
  identity are all positive, and the number of active keys it reports is 0.
\<close>

lemma limiter_never_blocks:
  "list_all (\<lambda>e. spam_Allow (fst (NewLimiter cfg)) None e =
     ((\<lparr>Allowed = True, Reason = []\<rparr>, None),
      if spam_HasMetrics cfg then [ObserveAntiSpamCheck ''allowed''] else [])) events \<and>
   ActiveKeys (spam_Stats (fst (NewLimiter cfg))) = 0"
  by (simp add: list_all_iff spam_Allow_def NewLimiter_def Let_def observeCheck_def emit_def
      spam_Stats_def)

end
