(* ===== verification/Config.thy ===== *)
theory Config
  imports Go_Prelude
begin

text \<open>
  \<open>internal/config/config.go\<close>: the configuration records, the defaults, \<open>Validate\<close> and \<open>Load\<close>. The
  environment, the file system and \<open>yaml.Unmarshal\<close> are arguments of \<open>Load\<close>: \<open>getenv\<close>, \<open>readFile\<close>, and
  \<open>unmarshal\<close>, which writes into the configuration it is given and may fail. The texts of wrapping errors
  leave out the formatted arguments.
\<close>

section \<open>Records\<close>

record app_config =
  Env :: string
  ShutdownTimeout :: duration

record server_config =
  GRPCAddr :: string

record metrics_config =
  metrics_Host :: string
  metrics_Port :: int
  metrics_Path :: string

record kafka_config =
  Brokers :: "string list"
  Topic :: string
  GroupID :: string
  ClientID :: string
  MinBytes :: int
  MaxBytes :: int
  MaxWaitMS :: int
  CommitIntervalMS :: int
  StartOffset :: string
  CommitRetries :: int
  RetryBackoff :: duration

record aggregator_config =
  ac_Window :: duration
  ac_BucketSize :: duration
  ac_DefaultLimit :: int
  ac_MaxLimit :: int
  ac_TopRefreshInterval :: duration
  ac_MaxQueryRunes :: int
  ac_AllowedFutureSkew :: duration

record stoplist_config =
  InitialWords :: "string list"

record antispam_config =
  as_Enabled :: bool
  as_MaxEventsPerIdentityPerMinute :: int
  as_MaxSameQueryPerIdentityPerWindow :: int

record config =
  c_App :: app_config
  c_Server :: server_config
  c_Metrics :: metrics_config
  c_Kafka :: kafka_config
  c_Aggregator :: aggregator_config
  c_StopList :: stoplist_config
  c_AntiSpam :: antispam_config

section \<open>Defaults, validation, loading\<close>

definition defaultConfig :: config where
  "defaultConfig = \<lparr>
     c_App = \<lparr>Env = ''local'', ShutdownTimeout = 10 * second\<rparr>,
     c_Server = \<lparr>GRPCAddr = '':9090''\<rparr>,
     c_Metrics = \<lparr>metrics_Host = ''0.0.0.0'', metrics_Port = 2112, metrics_Path = ''/metrics''\<rparr>,
     c_Kafka = \<lparr>Brokers = [], Topic = ''search-events'', GroupID = ''search-trends-service'',
       ClientID = ''search-trends-service'', MinBytes = 1, MaxBytes = 10 * 1024 * 1024,
       MaxWaitMS = 1000, CommitIntervalMS = 0, StartOffset = ''latest'', CommitRetries = 3,
       RetryBackoff = 500 * millisecond\<rparr>,
     c_Aggregator = \<lparr>ac_Window = 5 * 60 * second, ac_BucketSize = second, ac_DefaultLimit = 10,
       ac_MaxLimit = 100, ac_TopRefreshInterval = 500 * millisecond, ac_MaxQueryRunes = 256,
       ac_AllowedFutureSkew = 5 * second\<rparr>,
     c_StopList = \<lparr>InitialWords = []\<rparr>,
     c_AntiSpam = \<lparr>as_Enabled = False, as_MaxEventsPerIdentityPerMinute = 0,
       as_MaxSameQueryPerIdentityPerWindow = 0\<rparr>\<rparr>"

definition config_Validate :: "config \<Rightarrow> go_error option" where
  "config_Validate c =
     (if GRPCAddr (c_Server c) = [] then Some (ErrNew ''server.grpc_addr is required'')
      else if metrics_Host (c_Metrics c) = [] then Some (ErrNew ''metrics.host is required'')
      else if metrics_Port (c_Metrics c) \<le> 0 then Some (ErrNew ''metrics.port must be positive'')
      else if metrics_Path (c_Metrics c) = [] then Some (ErrNew ''metrics.path is required'')
      else if length (Brokers (c_Kafka c)) = 0 then Some (ErrNew ''kafka.brokers is required'')
      else if Topic (c_Kafka c) = [] then Some (ErrNew ''kafka.topic is required'')
      else if GroupID (c_Kafka c) = [] then Some (ErrNew ''kafka.group_id is required'')
      else if MinBytes (c_Kafka c) \<le> 0 then Some (ErrNew ''kafka.min_bytes must be positive'')
      else if MaxBytes (c_Kafka c) < MinBytes (c_Kafka c)
        then Some (ErrNew ''kafka.max_bytes must be greater than or equal to min_bytes'')
      else if MaxWaitMS (c_Kafka c) \<le> 0 then Some (ErrNew ''kafka.max_wait_ms must be positive'')
      else if CommitIntervalMS (c_Kafka c) < 0
        then Some (ErrNew ''kafka.commit_interval_ms must not be negative'')
      else if StartOffset (c_Kafka c) \<noteq> ''latest'' \<and> StartOffset (c_Kafka c) \<noteq> ''earliest'' \<and>
          StartOffset (c_Kafka c) \<noteq> ''first''
        then Some (ErrNew ''kafka.start_offset must be latest, earliest or first'')
      else if ac_Window (c_Aggregator c) \<le> 0 then Some (ErrNew ''aggregator.window must be positive'')
      else if ac_BucketSize (c_Aggregator c) \<le> 0
        then Some (ErrNew ''aggregator.bucket_size must be positive'')
      else if ac_DefaultLimit (c_Aggregator c) \<le> 0
        then Some (ErrNew ''aggregator.default_limit must be positive'')
      else if ac_MaxLimit (c_Aggregator c) < ac_DefaultLimit (c_Aggregator c)
        then Some (ErrNew ''aggregator.max_limit must be greater than or equal to default_limit'')
      else None)"

definition config_Load ::
  "(string \<Rightarrow> string) \<Rightarrow> (string \<Rightarrow> go_error + string) \<Rightarrow> (string \<Rightarrow> config \<Rightarrow> go_error + config) \<Rightarrow>
   string \<Rightarrow> go_error + config" where
  "config_Load getenv readFile unmarshal path0 =
     (let path1 = (if path0 = [] then getenv ''CONFIG_PATH'' else path0);
          path = (if path1 = [] then ''config.example.yaml'' else path1);
          cfg = defaultConfig
      in case readFile path of
           Inl err \<Rightarrow> Inl (ErrWrap ''read config'' err)
         | Inr data \<Rightarrow>
             (case unmarshal data cfg of
                Inl err \<Rightarrow> Inl (ErrWrap ''parse config'' err)
              | Inr cfg' \<Rightarrow>
                  (case config_Validate cfg' of
                     Some err \<Rightarrow> Inl err
                   | None \<Rightarrow> Inr cfg')))"

section \<open>What a loaded configuration satisfies\<close>

definition config_valid :: "config \<Rightarrow> bool" where
  "config_valid c \<longleftrightarrow>
     GRPCAddr (c_Server c) \<noteq> [] \<and> metrics_Host (c_Metrics c) \<noteq> [] \<and> 0 < metrics_Port (c_Metrics c) \<and>
     metrics_Path (c_Metrics c) \<noteq> [] \<and> Brokers (c_Kafka c) \<noteq> [] \<and> Topic (c_Kafka c) \<noteq> [] \<and>
     GroupID (c_Kafka c) \<noteq> [] \<and> 0 < MinBytes (c_Kafka c) \<and> MinBytes (c_Kafka c) \<le> MaxBytes (c_Kafka c) \<and>
     0 < MaxWaitMS (c_Kafka c) \<and> 0 \<le> CommitIntervalMS (c_Kafka c) \<and>
     StartOffset (c_Kafka c) \<in> {''latest'', ''earliest'', ''first''} \<and>
     0 < ac_Window (c_Aggregator c) \<and> 0 < ac_BucketSize (c_Aggregator c) \<and>
     0 < ac_DefaultLimit (c_Aggregator c) \<and> ac_DefaultLimit (c_Aggregator c) \<le> ac_MaxLimit (c_Aggregator c)"

lemma config_Validate_iff: "config_Validate c = None \<longleftrightarrow> config_valid c"
  unfolding config_Validate_def config_valid_def by (simp add: not_le not_less)


text \<open>
  The defaults alone are not enough to start: every rule holds for them except that the broker list is
  required, which is the error \<open>Load\<close> returns for a file that sets nothing.
\<close>

lemma defaultConfig_needs_brokers:
  "config_Validate defaultConfig = Some (ErrNew ''kafka.brokers is required'') \<and>
   config_valid (defaultConfig\<lparr>c_Kafka := (c_Kafka defaultConfig)\<lparr>Brokers := [b]\<rparr>\<rparr>)"
  by (simp add: config_Validate_def config_valid_def defaultConfig_def)

end
