(* ===== verification/Kafka_Decoder.thy ===== *)
theory Kafka_Decoder
  imports Aggregator
begin

text \<open>
  \<open>internal/kafka/event.go\<close> and \<open>decoder.go\<close>. \<open>json.Unmarshal\<close> into \<open>rawSearchEvent\<close> and
  \<open>time.Parse(time.RFC3339Nano, _)\<close> are the arguments \<open>unmarshal\<close> and \<open>parseTime\<close>; each returns an error
  or a value.
\<close>

section \<open>Events\<close>

record kafka_event =
  ke_EventID :: string
  ke_Query :: string
  ke_UserID :: string
  ke_SessionID :: string
  ke_IP :: string
  ke_UserAgent :: string
  ke_Timestamp :: gotime

definition ToAggregatorEvent :: "kafka_event \<Rightarrow> search_event" where
  "ToAggregatorEvent e = \<lparr>ev_Query = ke_Query e, ev_UserID = ke_UserID e,
     ev_SessionID = ke_SessionID e, ev_IP = ke_IP e, ev_Timestamp = ke_Timestamp e\<rparr>"

record raw_event =
  raw_EventID :: string
  raw_Query :: string
  raw_UserID :: string
  raw_SessionID :: string
  raw_IP :: string
  raw_UserAgent :: string
  raw_Timestamp :: string

section \<open>The decoder\<close>

definition json_Decode ::
  "(string \<Rightarrow> go_error + raw_event) \<Rightarrow> (string \<Rightarrow> go_error + gotime) \<Rightarrow> string \<Rightarrow> go_error + kafka_event"
where
  "json_Decode unmarshal parseTime data =
     (case unmarshal data of
        Inl err \<Rightarrow> Inl (ErrWrap ''invalid json'' ErrDecode)
      | Inr raw \<Rightarrow>
          (let eventID = TrimSpace (raw_EventID raw)
           in if eventID = [] then Inl (ErrWrap ''event_id is required'' ErrValidation)
           else let query = TrimSpace (raw_Query raw)
           in if query = [] then Inl (ErrWrap ''query is required'' ErrValidation)
           else let timestampText = TrimSpace (raw_Timestamp raw)
           in if timestampText = [] then Inl (ErrWrap ''timestamp is required'' ErrValidation)
           else (case parseTime timestampText of
                   Inl err \<Rightarrow> Inl (ErrWrap ''timestamp must be RFC3339'' ErrValidation)
                 | Inr timestamp \<Rightarrow>
                     Inr \<lparr>ke_EventID = eventID, ke_Query = raw_Query raw,
                          ke_UserID = TrimSpace (raw_UserID raw),
                          ke_SessionID = TrimSpace (raw_SessionID raw),
                          ke_IP = TrimSpace (raw_IP raw),
                          ke_UserAgent = TrimSpace (raw_UserAgent raw),
                          ke_Timestamp = time_UTC timestamp\<rparr>)))"

section \<open>The interface of a decoder\<close>

text \<open>
  What the consumer relies on: an error is a decoding error or a validation error, never both, and an
  event has a non-empty id and a query that is not blank.
\<close>

locale decoder_contract =
  fixes decode :: "string \<Rightarrow> go_error + kafka_event"
  assumes decode_error: "decode d = Inl err \<Longrightarrow> errors_Is err ErrDecode \<noteq> errors_Is err ErrValidation"
    and decode_event: "decode d = Inr event \<Longrightarrow> ke_EventID event \<noteq> [] \<and> TrimSpace (ke_Query event) \<noteq> []"
begin

lemma decode_cases:
  obtains (malformed) err where "decode d = Inl err" "errors_Is err ErrDecode"
  | (invalid) err where "decode d = Inl err" "\<not> errors_Is err ErrDecode" "errors_Is err ErrValidation"
  | (event) event where "decode d = Inr event"
  using decode_error by (cases "decode d") blast+

end

lemma json_Decode_spec:
  "json_Decode unmarshal parseTime data = Inr event \<longleftrightarrow>
   (\<exists>raw t. unmarshal data = Inr raw \<and> TrimSpace (raw_EventID raw) \<noteq> [] \<and> TrimSpace (raw_Query raw) \<noteq> [] \<and>
      TrimSpace (raw_Timestamp raw) \<noteq> [] \<and> parseTime (TrimSpace (raw_Timestamp raw)) = Inr t \<and>
      event = \<lparr>ke_EventID = TrimSpace (raw_EventID raw), ke_Query = raw_Query raw,
        ke_UserID = TrimSpace (raw_UserID raw), ke_SessionID = TrimSpace (raw_SessionID raw),
        ke_IP = TrimSpace (raw_IP raw), ke_UserAgent = TrimSpace (raw_UserAgent raw), ke_Timestamp = t\<rparr>)"
  by (auto simp: json_Decode_def Let_def time_UTC_def split: sum.splits)

interpretation json: decoder_contract "json_Decode unmarshal parseTime" for unmarshal parseTime
proof
  fix d err
  assume "json_Decode unmarshal parseTime d = Inl err"
  then show "errors_Is err ErrDecode \<noteq> errors_Is err ErrValidation"
    by (auto simp: json_Decode_def Let_def split: sum.splits if_splits)
qed (auto simp: json_Decode_spec)

text \<open>
  C34: the decoder accepts a payload exactly if the JSON decodes, the trimmed event id, query and timestamp
  are not empty and the trimmed timestamp parses; the event then carries the raw query, the other fields
  trimmed and the parsed time. A payload is malformed (\<open>ErrDecode\<close>) exactly if the JSON does not decode,
  and invalid (\<open>ErrValidation\<close>) in all other cases, for every JSON decoder and time parser.
\<close>

theorem json_Decode_correct:
  fixes unmarshal parseTime data
  defines "r \<equiv> json_Decode unmarshal parseTime data"
  shows "(r = Inr event \<longleftrightarrow>
     (\<exists>raw t. unmarshal data = Inr raw \<and> TrimSpace (raw_EventID raw) \<noteq> [] \<and> TrimSpace (raw_Query raw) \<noteq> [] \<and>
        TrimSpace (raw_Timestamp raw) \<noteq> [] \<and> parseTime (TrimSpace (raw_Timestamp raw)) = Inr t \<and>
        event = \<lparr>ke_EventID = TrimSpace (raw_EventID raw), ke_Query = raw_Query raw,
          ke_UserID = TrimSpace (raw_UserID raw), ke_SessionID = TrimSpace (raw_SessionID raw),
          ke_IP = TrimSpace (raw_IP raw), ke_UserAgent = TrimSpace (raw_UserAgent raw), ke_Timestamp = t\<rparr>)) \<and>
    ((\<exists>err. r = Inl err \<and> errors_Is err ErrDecode) \<longleftrightarrow> (\<exists>e. unmarshal data = Inl e)) \<and>
    ((\<exists>err. r = Inl err \<and> errors_Is err ErrValidation) \<longleftrightarrow>
       (\<exists>raw. unmarshal data = Inr raw) \<and> (\<nexists>event. r = Inr event))"
proof -
  have "(\<exists>err. r = Inl err \<and> errors_Is err ErrDecode) \<longleftrightarrow> (\<exists>e. unmarshal data = Inl e)"
    by (auto simp: r_def json_Decode_def Let_def split: sum.splits)
  moreover have "(\<exists>err. r = Inl err \<and> errors_Is err ErrValidation) \<longleftrightarrow>
      (\<exists>raw. unmarshal data = Inr raw) \<and> (\<nexists>event. r = Inr event)"
    by (auto simp: r_def json_Decode_def Let_def split: sum.splits)
  ultimately show ?thesis unfolding r_def json_Decode_spec by blast
qed

end
