(* ===== verification/Kafka_Consumer.thy ===== *)
theory Kafka_Consumer
  imports Kafka_Decoder
begin

text \<open>
  \<open>internal/kafka/consumer.go\<close>. The reader of the Kafka client, the handler, the decoder, the context and
  the clock are an environment: each call takes the state \<open>'w\<close> of everything outside the consumer and
  returns its result and the next state. Every operation also returns the list of what it did, in order:
  its calls on the environment with their results, and its metric calls. The loop \<open>Run\<close> need not end, so
  it has fuel, and \<open>None\<close> is the value of a loop that is still running; every statement about its actions
  holds for every fuel. Log lines are left out, and \<open>commitRetries\<close> is below the largest \<open>int\<close>.
\<close>

section \<open>The environment\<close>

record kafka_message =
  msg_Partition :: int
  msg_Offset :: int
  msg_Value :: string

text \<open>
  \<open>env_select\<close> is the select statement of \<open>sleep\<close>: \<open>Some (ctx.Err())\<close> if the context is done first, \<open>None\<close>
  if the timer fires.
\<close>

record 'w kafka_env =
  env_fetch :: "'w \<Rightarrow> (go_error + kafka_message) \<times> 'w"
  env_commit :: "kafka_message \<Rightarrow> 'w \<Rightarrow> go_error option \<times> 'w"
  env_select :: "duration \<Rightarrow> 'w \<Rightarrow> ctx \<times> 'w"
  env_decode :: "string \<Rightarrow> go_error + kafka_event"
  env_handle :: "kafka_event \<Rightarrow> 'w \<Rightarrow> go_error option \<times> 'w"
  env_since :: "'w \<Rightarrow> duration"

datatype kafka_action =
    ActFetch "go_error + kafka_message"
  | ActHandle kafka_event "go_error option"
  | ActCommit kafka_message "go_error option"
  | ActSleep duration "go_error option"
  | ActMetric metric_call

section \<open>Construction\<close>

record kafka_client_config =
  kc_Brokers :: "string list"
  kc_Topic :: string
  kc_GroupID :: string
  kc_ClientID :: string
  kc_MinBytes :: int
  kc_MaxBytes :: int
  kc_MaxWait :: duration
  kc_CommitInterval :: duration
  kc_StartOffset :: string
  kc_CommitRetries :: int
  kc_RetryBackoff :: duration

record consumer =
  commitRetries :: int
  retryBackoff :: duration
  con_HasMetrics :: bool

datatype start_offset = LastOffset | FirstOffset

record reader_config =
  rc_Brokers :: "string list"
  rc_Topic :: string
  rc_GroupID :: string
  rc_GroupTopics :: "string list"
  rc_MinBytes :: int
  rc_MaxBytes :: int
  rc_MaxWait :: duration
  rc_CommitInterval :: duration
  rc_StartOffset :: start_offset

definition parseStartOffset :: "string \<Rightarrow> go_error + start_offset" where
  "parseStartOffset value =
     (if value = [] \<or> value = ''latest'' then Inr LastOffset
      else if value = ''earliest'' \<or> value = ''first'' then Inr FirstOffset
      else Inl (ErrNew ''unsupported kafka start offset''))"

text \<open>The configuration that \<open>newKafkaReader\<close> hands to \<open>kafka.NewReader\<close>.\<close>

definition newKafkaReader :: "kafka_client_config \<Rightarrow> go_error + reader_config" where
  "newKafkaReader cfg0 =
     (if length (kc_Brokers cfg0) = 0 then Inl (ErrNew ''kafka brokers are required'')
      else if kc_Topic cfg0 = [] then Inl (ErrNew ''kafka topic is required'')
      else if kc_GroupID cfg0 = [] then Inl (ErrNew ''kafka group id is required'')
      else let cfg1 = (if kc_MinBytes cfg0 \<le> 0 then cfg0\<lparr>kc_MinBytes := 1\<rparr> else cfg0);
               cfg2 = (if kc_MaxBytes cfg1 \<le> 0 then cfg1\<lparr>kc_MaxBytes := 10 * 1024 * 1024\<rparr> else cfg1);
               cfg = (if kc_MaxWait cfg2 \<le> 0 then cfg2\<lparr>kc_MaxWait := second\<rparr> else cfg2)
      in case parseStartOffset (kc_StartOffset cfg) of
           Inl err \<Rightarrow> Inl err
         | Inr startOffset \<Rightarrow>
             Inr \<lparr>rc_Brokers = kc_Brokers cfg, rc_Topic = kc_Topic cfg, rc_GroupID = kc_GroupID cfg,
                  rc_GroupTopics = [kc_Topic cfg], rc_MinBytes = kc_MinBytes cfg,
                  rc_MaxBytes = kc_MaxBytes cfg, rc_MaxWait = kc_MaxWait cfg,
                  rc_CommitInterval = kc_CommitInterval cfg, rc_StartOffset = startOffset\<rparr>)"

text \<open>The flags say which of the arguments are not nil.\<close>

definition NewConsumerWithReader ::
  "bool \<Rightarrow> bool \<Rightarrow> bool \<Rightarrow> bool \<Rightarrow> bool \<Rightarrow> int \<Rightarrow> duration \<Rightarrow> go_error + consumer" where
  "NewConsumerWithReader reader decoder logger metrics handler retries0 backoff0 =
     (if \<not> reader then Inl (ErrNew ''kafka reader is required'')
      else if \<not> decoder then Inl (ErrNew ''kafka decoder is required'')
      else if \<not> logger then Inl (ErrNew ''logger is required'')
      else if \<not> handler then Inl (ErrNew ''kafka handler is required'')
      else let retries = (if retries0 \<le> 0 then 3 else retries0);
               backoff = (if backoff0 \<le> 0 then 500 * millisecond else backoff0)
      in Inr \<lparr>commitRetries = retries, retryBackoff = backoff, con_HasMetrics = metrics\<rparr>)"

definition NewConsumer ::
  "kafka_client_config \<Rightarrow> bool \<Rightarrow> bool \<Rightarrow> go_error + (reader_config \<times> consumer)" where
  "NewConsumer cfg metrics handler =
     (case newKafkaReader cfg of
        Inl err \<Rightarrow> Inl err
      | Inr reader \<Rightarrow>
          (case NewConsumerWithReader True True True metrics handler
                  (kc_CommitRetries cfg) (kc_RetryBackoff cfg) of
             Inl err \<Rightarrow> Inl err
           | Inr c \<Rightarrow> Inr (reader, c)))"

section \<open>Processing and committing\<close>

definition isContextError :: "go_error \<Rightarrow> bool" where
  "isContextError err \<longleftrightarrow> errors_Is err Canceled \<or> errors_Is err DeadlineExceeded"

definition kafka_sleep :: "'w kafka_env \<Rightarrow> duration \<Rightarrow> 'w \<Rightarrow> go_error option \<times> 'w" where
  "kafka_sleep env d w = env_select env d w"

definition acts :: "consumer \<Rightarrow> metric_call list \<Rightarrow> kafka_action list" where
  "acts c calls = map ActMetric (emit (con_HasMetrics c) calls)"

definition observeKafkaMessage :: "consumer \<Rightarrow> string \<Rightarrow> kafka_action list" where
  "observeKafkaMessage c status = acts c [ObserveKafkaMessage status]"

definition incKafkaDecodeError :: "consumer \<Rightarrow> kafka_action list" where
  "incKafkaDecodeError c = acts c [IncKafkaDecodeError]"

definition incKafkaCommitError :: "consumer \<Rightarrow> kafka_action list" where
  "incKafkaCommitError c = acts c [IncKafkaCommitError]"

definition incKafkaReadError :: "consumer \<Rightarrow> kafka_action list" where
  "incKafkaReadError c = acts c [IncKafkaReadError]"

text \<open>The deferred call at the end of \<open>processMessage\<close>.\<close>

definition observeDuration :: "'w kafka_env \<Rightarrow> consumer \<Rightarrow> 'w \<Rightarrow> kafka_action list" where
  "observeDuration env c w = acts c [ObserveKafkaProcessingDuration (env_since env w)]"

definition processMessage ::
  "'w kafka_env \<Rightarrow> consumer \<Rightarrow> kafka_message \<Rightarrow> 'w \<Rightarrow>
   (bool \<times> go_error option) \<times> 'w \<times> kafka_action list" where
  "processMessage env c message w =
     (case env_decode env (msg_Value message) of
        Inl err \<Rightarrow>
          if errors_Is err ErrDecode then
            ((True, None), w,
             incKafkaDecodeError c @ observeKafkaMessage c ''invalid'' @ observeDuration env c w)
          else if errors_Is err ErrValidation then
            ((True, None), w, observeKafkaMessage c ''invalid'' @ observeDuration env c w)
          else ((False, Some err), w, observeKafkaMessage c ''failed'' @ observeDuration env c w)
      | Inr event \<Rightarrow>
          (let pre = acts c [SetKafkaLastMessageTimestamp (ke_Timestamp event)]
           in case env_handle env event w of
                (Some err, w') \<Rightarrow>
                  if IsValidationError err then
                    ((True, None), w', pre @ [ActHandle event (Some err)] @
                       observeKafkaMessage c ''invalid'' @ observeDuration env c w')
                  else ((False, Some err), w', pre @ [ActHandle event (Some err)] @
                       observeKafkaMessage c ''failed'' @ observeDuration env c w')
              | (None, w') \<Rightarrow>
                  ((True, None), w', pre @ [ActHandle event None] @
                     observeKafkaMessage c ''processed'' @ observeDuration env c w')))"

function commitLoop ::
  "'w kafka_env \<Rightarrow> consumer \<Rightarrow> kafka_message \<Rightarrow> int \<Rightarrow> go_error option \<Rightarrow> 'w \<Rightarrow>
   go_error option \<times> 'w \<times> kafka_action list" where
  "commitLoop env c message attempt lastErr w =
     (if attempt \<le> commitRetries c then
        (case env_commit env message w of
           (None, w1) \<Rightarrow> (None, w1, [ActCommit message None])
         | (Some err, w1) \<Rightarrow>
             if isContextError err then (Some err, w1, [ActCommit message (Some err)])
             else
               (let pre = ActCommit message (Some err) # incKafkaCommitError c @ observeKafkaMessage c ''failed''
                in case kafka_sleep env (retryBackoff c) w1 of
                     (Some err', w2) \<Rightarrow> (Some err', w2, pre @ [ActSleep (retryBackoff c) (Some err')])
                   | (None, w2) \<Rightarrow>
                       (case commitLoop env c message (attempt + 1) (Some err) w2 of
                          (r, w3, as) \<Rightarrow> (r, w3, pre @ ActSleep (retryBackoff c) None # as))))
      else (lastErr, w, []))"
  by pat_completeness auto
termination
  by (relation "measure (\<lambda>(env, c, message, attempt, lastErr, w). nat (commitRetries c + 1 - attempt))")
    auto

declare commitLoop.simps [simp del]

definition commitWithRetry ::
  "'w kafka_env \<Rightarrow> consumer \<Rightarrow> kafka_message \<Rightarrow> 'w \<Rightarrow> go_error option \<times> 'w \<times> kafka_action list" where
  "commitWithRetry env c message w = commitLoop env c message 1 None w"

section \<open>The loop\<close>

datatype outcome = Continue | Return "go_error option"

definition runIteration ::
  "'w kafka_env \<Rightarrow> consumer \<Rightarrow> 'w \<Rightarrow> outcome \<times> 'w \<times> kafka_action list" where
  "runIteration env c w =
     (case env_fetch env w of
        (Inl err, w1) \<Rightarrow>
          if isContextError err then (Return None, w1, [ActFetch (Inl err)])
          else
            (let pre = ActFetch (Inl err) # incKafkaReadError c @ observeKafkaMessage c ''failed''
             in case kafka_sleep env (retryBackoff c) w1 of
                  (Some err', w2) \<Rightarrow> (Return None, w2, pre @ [ActSleep (retryBackoff c) (Some err')])
                | (None, w2) \<Rightarrow> (Continue, w2, pre @ [ActSleep (retryBackoff c) None]))
      | (Inr message, w1) \<Rightarrow>
          (case processMessage env c message w1 of
             ((shouldCommit, err), w2, as) \<Rightarrow>
               (let pre = ActFetch (Inr message) # observeKafkaMessage c ''received'' @ as
                in if (case err of Some e \<Rightarrow> isContextError e | None \<Rightarrow> False) then (Return None, w2, pre)
                   else if \<not> shouldCommit then (Continue, w2, pre)
                   else (case commitWithRetry env c message w2 of
                           (Some e, w3, as') \<Rightarrow>
                             (Return (if isContextError e then None
                                      else Some (ErrWrap ''commit kafka message'' e)), w3, pre @ as')
                         | (None, w3, as') \<Rightarrow> (Continue, w3, pre @ as')))))"

fun consumer_Run ::
  "nat \<Rightarrow> 'w kafka_env \<Rightarrow> consumer \<Rightarrow> 'w \<Rightarrow> go_error option option \<times> 'w \<times> kafka_action list" where
  "consumer_Run 0 env c w = (None, w, [])"
| "consumer_Run (Suc fuel) env c w =
     (case runIteration env c w of
        (Return r, w', as) \<Rightarrow> (Some r, w', as)
      | (Continue, w', as) \<Rightarrow>
          (case consumer_Run fuel env c w' of (r, w'', as') \<Rightarrow> (r, w'', as @ as')))"

definition consumer_Close :: "('w \<Rightarrow> go_error option \<times> 'w) \<Rightarrow> 'w \<Rightarrow> go_error option \<times> 'w" where
  "consumer_Close reader_Close w = reader_Close w"

lemmas consumer_metric_defs = observeKafkaMessage_def incKafkaDecodeError_def incKafkaCommitError_def
  incKafkaReadError_def observeDuration_def acts_def emit_def

end
