(* ===== verification/Kafka_Safety.thy ===== *)
theory Kafka_Safety
  imports Kafka_Consumer
begin

text \<open>
  What the consumer guarantees for every environment: no offset is committed before its message is
  processed or found invalid, commits are retried a bounded number of times, the message metrics add up,
  and \<open>Run\<close> fails only when a commit was retried in vain.
\<close>

section \<open>Commits follow processing\<close>

text \<open>
  A monitor reads the actions of a run. \<open>PReady m\<close>: message \<open>m\<close> may be committed. The monitor fails on a
  handler call for anything but the event of the fetched message and on a commit of a message that is
  not settled.
\<close>

datatype phase = PIdle | PFetched kafka_message | PReady kafka_message

definition discarded :: "(string \<Rightarrow> go_error + kafka_event) \<Rightarrow> kafka_message \<Rightarrow> bool" where
  "discarded decode m \<longleftrightarrow> (case decode (msg_Value m) of
     Inl err \<Rightarrow> errors_Is err ErrDecode \<or> errors_Is err ErrValidation | Inr _ \<Rightarrow> False)"

definition settles :: "go_error option \<Rightarrow> bool" where
  "settles r \<longleftrightarrow> (case r of None \<Rightarrow> True | Some err \<Rightarrow> IsValidationError err)"

fun monitor :: "(string \<Rightarrow> go_error + kafka_event) \<Rightarrow> phase \<Rightarrow> kafka_action \<Rightarrow> phase option" where
  "monitor decode p (ActFetch (Inl err)) = Some PIdle"
| "monitor decode p (ActFetch (Inr m)) = Some (if discarded decode m then PReady m else PFetched m)"
| "monitor decode (PFetched m) (ActHandle event r) =
     (if decode (msg_Value m) = Inr event then Some (if settles r then PReady m else PIdle) else None)"
| "monitor decode p (ActHandle event r) = None"
| "monitor decode (PReady m) (ActCommit m' r) = (if m' = m then Some (PReady m) else None)"
| "monitor decode p (ActCommit m' r) = None"
| "monitor decode p (ActSleep d r) = Some p"
| "monitor decode p (ActMetric call) = Some p"

fun monitor_run :: "(string \<Rightarrow> go_error + kafka_event) \<Rightarrow> phase \<Rightarrow> kafka_action list \<Rightarrow> phase option" where
  "monitor_run decode p [] = Some p"
| "monitor_run decode p (a # as) = Option.bind (monitor decode p a) (\<lambda>p'. monitor_run decode p' as)"

lemma monitor_run_append [simp]:
  "monitor_run d p (as @ as') = Option.bind (monitor_run d p as) (\<lambda>p'. monitor_run d p' as')"
  by (induction as arbitrary: p) (auto split: Option.bind_splits)

lemma monitor_metrics [simp]:
  "monitor_run d p (acts c calls) = Some p"
  "monitor_run d p (observeKafkaMessage c status) = Some p"
  "monitor_run d p (incKafkaDecodeError c) = Some p"
  "monitor_run d p (incKafkaCommitError c) = Some p"
  "monitor_run d p (incKafkaReadError c) = Some p"
  "monitor_run d p (observeDuration env c w) = Some p"
proof -
  have "monitor_run d p (map ActMetric calls) = Some p" for calls by (induction calls) simp_all
  then show "monitor_run d p (acts c calls) = Some p"
    "monitor_run d p (observeKafkaMessage c status) = Some p"
    "monitor_run d p (incKafkaDecodeError c) = Some p"
    "monitor_run d p (incKafkaCommitError c) = Some p"
    "monitor_run d p (incKafkaReadError c) = Some p"
    "monitor_run d p (observeDuration env c w) = Some p" by (simp_all add: consumer_metric_defs)
qed

lemma monitor_processMessage:
  assumes "processMessage env c m w = ((shouldCommit, err), w', as)"
  defines "d \<equiv> env_decode env"
  shows "\<exists>p. monitor_run d (if discarded d m then PReady m else PFetched m) as = Some p \<and>
    (shouldCommit \<longrightarrow> p = PReady m)"
proof (cases "d (msg_Value m)")
  case (Inl e)
  then show ?thesis
    using assms(1) by (auto simp: processMessage_def d_def discarded_def split: if_splits)
next
  case (Inr event)
  moreover obtain r w1 where "env_handle env event w = (r, w1)" by fastforce
  ultimately show ?thesis
    using assms(1)
    by (cases r) (auto simp: processMessage_def d_def discarded_def settles_def Let_def split: if_splits)
qed

lemma monitor_commitLoop:
  "commitLoop env c m attempt lastErr w = (r, w', as) \<Longrightarrow>
   monitor_run d (PReady m) as = Some (PReady m)"
proof (induction env c m attempt lastErr w arbitrary: r w' as rule: commitLoop.induct)
  case (1 env c m attempt lastErr w)
  show ?case
    using "1.prems" "1.IH"
    by (subst (asm) commitLoop.simps)
      (auto simp: Let_def split: if_splits prod.splits option.splits)
qed

lemma monitor_iteration:
  assumes "runIteration env c w = (out, w', as)"
  shows "\<exists>p'. monitor_run (env_decode env) p as = Some p'"
proof -
  obtain f w1 where f: "env_fetch env w = (f, w1)" by fastforce
  show ?thesis
  proof (cases f)
    case (Inl err)
    then show ?thesis
      using assms f by (auto simp: runIteration_def Let_def split: if_splits prod.splits option.splits)
  next
    case (Inr m)
    obtain sc err w2 as1 where pm: "processMessage env c m w1 = ((sc, err), w2, as1)"
      by (metis prod.collapse)
    obtain r w3 as2 where cm: "commitWithRetry env c m w2 = (r, w3, as2)" by (metis prod.collapse)
    have "monitor_run (env_decode env) (PReady m) as2 = Some (PReady m)"
      using cm unfolding commitWithRetry_def by (rule monitor_commitLoop)
    then show ?thesis
      using assms f Inr pm cm monitor_processMessage [OF pm]
      by (auto simp: runIteration_def Let_def split: if_splits option.splits)
  qed
qed

text \<open>
  C5: no offset is committed early. For every reader, decoder, handler and context, in every run of the
  consumer of any length: a message is committed only while it is the last fetched one, and only if its
  payload did not decode or validate, or the handler was called with exactly its event and returned nil or
  a validation error; the handler is called at most once per fetched message and only with its event.
\<close>

theorem consumer_commits_after_processing:
  "\<exists>p. monitor_run (env_decode env) PIdle (snd (snd (consumer_Run fuel env c w))) = Some p"
proof -
  have "\<exists>p'. monitor_run (env_decode env) p (snd (snd (consumer_Run fuel env c w))) = Some p'" for p
  proof (induction fuel arbitrary: p w)
    case (Suc fuel)
    obtain out w' as where it: "runIteration env c w = (out, w', as)" by (metis prod.collapse)
    obtain p1 where "monitor_run (env_decode env) p as = Some p1" using monitor_iteration [OF it] by blast
    then show ?case using it Suc.IH [of p1 w'] by (cases out) (auto split: prod.splits)
  qed simp
  then show ?thesis .
qed

section \<open>Retries\<close>

fun commit_results :: "kafka_action list \<Rightarrow> go_error option list" where
  "commit_results [] = []"
| "commit_results (ActCommit m r # as) = r # commit_results as"
| "commit_results (_ # as) = commit_results as"

lemma commit_results_append [simp]: "commit_results (as @ as') = commit_results as @ commit_results as'"
  by (induction as rule: commit_results.induct) auto

lemma commit_results_metrics [simp]: "commit_results (map ActMetric calls) = []"
  by (induction calls) auto

lemma commit_results_acts [simp]:
  "commit_results (observeKafkaMessage c status) = []" "commit_results (incKafkaCommitError c) = []"
  by (simp_all add: observeKafkaMessage_def incKafkaCommitError_def acts_def)

definition retryable :: "go_error option \<Rightarrow> bool" where
  "retryable r \<longleftrightarrow> (\<exists>e. r = Some e \<and> \<not> isContextError e)"

text \<open>What the context package promises of the select in \<open>sleep\<close>.\<close>

definition select_ok :: "'w kafka_env \<Rightarrow> bool" where
  "select_ok env \<longleftrightarrow> (\<forall>d w. ctx_ok (fst (env_select env d w)))"

lemma select_ctx_error: "select_ok env \<Longrightarrow> env_select env d w = (Some e, w') \<Longrightarrow> isContextError e"
  unfolding select_ok_def ctx_ok_def isContextError_def
  by (metis errors_Is.simps fst_conv option.distinct(1) option.inject)

text \<open>
  How a retry loop that has \<open>n\<close> attempts left ends: with a success after retryable failures, with a
  context error from a commit or from the sleep, or with all \<open>n\<close> attempts failed.
\<close>

inductive retry_ends :: "nat \<Rightarrow> go_error option \<Rightarrow> go_error option list \<Rightarrow> go_error option \<Rightarrow> bool" where
  exhausted: "retry_ends 0 lastErr [] lastErr"
| success: "retry_ends (Suc n) lastErr [None] None"
| ctx_error: "isContextError e \<Longrightarrow> retry_ends (Suc n) lastErr [Some e] (Some e)"
| interrupted: "\<not> isContextError err \<Longrightarrow> isContextError e \<Longrightarrow> retry_ends (Suc n) lastErr [Some err] (Some e)"
| again: "\<not> isContextError err \<Longrightarrow> retry_ends n (Some err) rs r \<Longrightarrow>
    retry_ends (Suc n) lastErr (Some err # rs) r"

lemma retry_ends_0: "retry_ends 0 lastErr rs r \<Longrightarrow> rs = [] \<and> r = lastErr"
  by (cases rule: retry_ends.cases) auto

lemma retry_ends_bounds:
  assumes "retry_ends n lastErr rs r" and "0 < n"
  shows "1 \<le> length rs \<and> length rs \<le> n \<and> (r = None \<longleftrightarrow> last rs = None) \<and> list_all retryable (butlast rs) \<and>
    (retryable r \<longrightarrow> length rs = n \<and> list_all retryable rs \<and> r = last rs)"
  using assms
proof (induction rule: retry_ends.induct)
  case (again err n rs r lastErr)
  then show ?case
  proof (cases n)
    case 0
    then have "rs = []" "r = Some err" using again.hyps(2) retry_ends_0 by auto
    then show ?thesis using again.hyps(1) 0 by (auto simp: retryable_def)
  next
    case (Suc k)
    then have "rs \<noteq> []" using again.IH by auto
    then show ?thesis using again Suc by (auto simp: retryable_def)
  qed
qed (auto simp: retryable_def)

lemma commitLoop_ends:
  assumes "select_ok env" and "commitLoop env c m attempt lastErr w = (r, w', as)"
  shows "retry_ends (nat (commitRetries c + 1 - attempt)) lastErr (commit_results as) r"
  using assms
proof (induction env c m attempt lastErr w arbitrary: r w' as rule: commitLoop.induct)
  case (1 env c m attempt lastErr w)
  obtain e w1 where cm: "env_commit env m w = (e, w1)" by fastforce
  note eq = "1.prems"(2) [unfolded commitLoop.simps [of env c m attempt]]
  let ?n = "nat (commitRetries c + 1 - attempt)"
  have n: "?n = Suc (nat (commitRetries c + 1 - (attempt + 1)))" if "attempt \<le> commitRetries c"
    using that by simp
  consider (out) "\<not> attempt \<le> commitRetries c" | (ok) "attempt \<le> commitRetries c" "e = None"
    | (ctx) err where "attempt \<le> commitRetries c" "e = Some err" "isContextError err"
    | (again) err where "attempt \<le> commitRetries c" "e = Some err" "\<not> isContextError err"
    by (cases e) blast+
  then show ?case
  proof cases
    case out
    then show ?thesis using eq exhausted by simp
  next
    case ok
    then show ?thesis using eq cm success n by auto
  next
    case (ctx err)
    then show ?thesis using eq cm ctx_error n by auto
  next
    case (again err)
    obtain z w2 where sl: "kafka_sleep env (retryBackoff c) w1 = (z, w2)" by fastforce
    show ?thesis
    proof (cases z)
      case None
      obtain r' w3 as' where rec: "commitLoop env c m (attempt + 1) (Some err) w2 = (r', w3, as')"
        by (metis prod.collapse)
      have "retry_ends (nat (commitRetries c + 1 - (attempt + 1))) (Some err) (commit_results as') r'"
        using "1.IH" [OF again(1) cm [symmetric] again(2,3) refl sl [symmetric] None "1.prems"(1) rec] .
      then have "retry_ends ?n lastErr (Some err # commit_results as') r'"
        unfolding n [OF again(1)] using again(3) by (intro retry_ends.again)
      then show ?thesis using again eq cm sl None rec by (auto simp: Let_def)
    next
      case (Some e')
      then have "isContextError e'"
        using sl "1.prems"(1) select_ctx_error by (auto simp: kafka_sleep_def)
      then have "retry_ends ?n lastErr [Some err] (Some e')"
        unfolding n [OF again(1)] using again(3) by (intro interrupted)
      then show ?thesis using eq cm sl Some again by (auto simp: Let_def)
    qed
  qed
qed

lemma commitWithRetry_outcome_lemma:
  assumes "0 < commitRetries c" and "select_ok env" and "commitWithRetry env c m w = (r, w', as)"
  defines "rs \<equiv> commit_results as"
  shows "1 \<le> length rs \<and> int (length rs) \<le> commitRetries c \<and> (r = None \<longleftrightarrow> last rs = None) \<and>
    list_all retryable (butlast rs) \<and>
    (retryable r \<longrightarrow> int (length rs) = commitRetries c \<and> list_all retryable rs \<and> r = last rs)"
proof -
  have "retry_ends (nat (commitRetries c)) None rs r"
    using commitLoop_ends [OF assms(2) assms(3) [unfolded commitWithRetry_def]] by (simp add: rs_def)
  from retry_ends_bounds [OF this] show ?thesis using assms(1) by auto
qed

text \<open>
  C14: commits are retried a bounded number of times and never after a success. For every environment whose
  sleep is interrupted only by a context error, one call of \<open>commitWithRetry\<close> makes at least one and at most
  \<open>commitRetries\<close> attempts; it returns nil exactly if the last attempt succeeded; all earlier attempts
  failed with errors that are not context errors; and an error that is not a context error is the error of
  the last of exactly \<open>commitRetries\<close> failed attempts.
\<close>

theorem commitWithRetry_outcome:
  assumes "0 < commitRetries c" and "select_ok env" and "commitWithRetry env c m w = (r, w', as)"
  defines "rs \<equiv> commit_results as"
  shows "1 \<le> length rs \<and> int (length rs) \<le> commitRetries c \<and> (r = None \<longleftrightarrow> last rs = None) \<and>
    list_all retryable (butlast rs) \<and>
    (retryable r \<longrightarrow> int (length rs) = commitRetries c \<and> list_all retryable rs \<and> r = last rs)"
  unfolding rs_def using assms(1-3) by (rule commitWithRetry_outcome_lemma)

text \<open>
  An environment for concrete runs: the state counts the calls; the first fetch returns a message, later
  ones find the context cancelled, the first commit fails, the decoder knows one payload.
\<close>

definition sample_message :: kafka_message where
  "sample_message = \<lparr>msg_Partition = 0, msg_Offset = 7, msg_Value = ''{}''\<rparr>"

definition sample_kafka_event :: kafka_event where
  "sample_kafka_event = \<lparr>ke_EventID = ''1'', ke_Query = ''tea'', ke_UserID = [], ke_SessionID = [],
     ke_IP = [], ke_UserAgent = [], ke_Timestamp = at_unix 1000\<rparr>"

definition sample_env :: "int kafka_env" where
  "sample_env = \<lparr>
     env_fetch = (\<lambda>w. (if w = 0 then Inr sample_message else Inl Canceled, w + 1)),
     env_commit = (\<lambda>m w. (if w = 2 then Some (ErrNew ''broker'') else None, w + 1)),
     env_select = (\<lambda>d w. (None, w + 1)),
     env_decode = (\<lambda>d. if d = ''{}'' then Inr sample_kafka_event else Inl (ErrWrap ''json'' ErrDecode)),
     env_handle = (\<lambda>e w. (None, w + 1)),
     env_since = (\<lambda>w. 5)\<rparr>"

definition sample_consumer :: consumer where
  "sample_consumer = \<lparr>commitRetries = 3, retryBackoff = second, con_HasMetrics = True\<rparr>"

lemma sample_select_ok: "select_ok sample_env"
  by (simp add: select_ok_def sample_env_def ctx_ok_def)

lemma sample_commit:
  "commitWithRetry sample_env sample_consumer sample_message 2 =
     (None, 5, [ActCommit sample_message (Some (ErrNew ''broker'')), ActMetric IncKafkaCommitError,
        ActMetric (ObserveKafkaMessage ''failed''), ActSleep second None, ActCommit sample_message None])"
  by (simp add: commitWithRetry_def commitLoop.simps sample_env_def sample_consumer_def
      isContextError_def kafka_sleep_def consumer_metric_defs)

theorem commitWithRetry_outcome_witness:
  "commit_results (snd (snd (commitWithRetry sample_env sample_consumer sample_message 2))) =
     [Some (ErrNew ''broker''), None] \<and> retryable (Some (ErrNew ''broker''))"
proof -
  have "0 < commitRetries sample_consumer" by (simp add: sample_consumer_def)
  from commitWithRetry_outcome [OF this sample_select_ok sample_commit]
  show ?thesis by (simp add: sample_commit)
qed

section \<open>Accounting\<close>

text \<open>How often an action occurs in a list.\<close>

abbreviation tally :: "metric_call \<Rightarrow> kafka_action list \<Rightarrow> nat" where
  "tally call as \<equiv> count_list as (ActMetric call)"

text \<open>The actions that start a message or an error, and the statuses that end them.\<close>

definition opened :: "kafka_action list \<Rightarrow> nat" where
  "opened as = tally (ObserveKafkaMessage ''received'') as + tally IncKafkaReadError as +
     tally IncKafkaCommitError as"

definition closed :: "kafka_action list \<Rightarrow> nat" where
  "closed as = tally (ObserveKafkaMessage ''processed'') as + tally (ObserveKafkaMessage ''invalid'') as +
     tally (ObserveKafkaMessage ''failed'') as"

lemma opened_append [simp]: "opened (as @ as') = opened as + opened as'"
  by (simp add: opened_def)

lemma closed_append [simp]: "closed (as @ as') = closed as + closed as'"
  by (simp add: closed_def)

lemma opened_closed_simps [simp]:
  "opened [] = 0" "closed [] = 0"
  "opened (ActFetch f # as) = opened as" "closed (ActFetch f # as) = closed as"
  "opened (ActHandle e r # as) = opened as" "closed (ActHandle e r # as) = closed as"
  "opened (ActCommit m r # as) = opened as" "closed (ActCommit m r # as) = closed as"
  "opened (ActSleep d r # as) = opened as" "closed (ActSleep d r # as) = closed as"
  by (simp_all add: opened_def closed_def)

lemma opened_closed_metrics:
  assumes "con_HasMetrics c"
  shows "opened (observeKafkaMessage c ''received'') = 1" "closed (observeKafkaMessage c ''received'') = 0"
    "opened (observeKafkaMessage c ''processed'') = 0" "closed (observeKafkaMessage c ''processed'') = 1"
    "opened (observeKafkaMessage c ''invalid'') = 0" "closed (observeKafkaMessage c ''invalid'') = 1"
    "opened (observeKafkaMessage c ''failed'') = 0" "closed (observeKafkaMessage c ''failed'') = 1"
    "opened (incKafkaReadError c) = 1" "closed (incKafkaReadError c) = 0"
    "opened (incKafkaCommitError c) = 1" "closed (incKafkaCommitError c) = 0"
    "opened (incKafkaDecodeError c) = 0" "closed (incKafkaDecodeError c) = 0"
    "opened (observeDuration env c w) = 0" "closed (observeDuration env c w) = 0"
    "opened (acts c [SetKafkaLastMessageTimestamp t]) = 0"
    "closed (acts c [SetKafkaLastMessageTimestamp t]) = 0"
  using assms by (simp_all add: opened_def closed_def consumer_metric_defs)

lemma processMessage_balance:
  assumes "con_HasMetrics c" and "processMessage env c m w = (r, w', as)"
  shows "opened as = 0 \<and> closed as = 1"
  using assms(2)
  by (auto simp: processMessage_def Let_def opened_closed_metrics [OF assms(1)]
      split: sum.splits if_splits prod.splits option.splits)

lemma commitLoop_balance:
  assumes "con_HasMetrics c" and "commitLoop env c m attempt lastErr w = (r, w', as)"
  shows "opened as = closed as"
  using assms
proof (induction env c m attempt lastErr w arbitrary: r w' as rule: commitLoop.induct)
  case (1 env c m attempt lastErr w)
  show ?case
    using "1.prems"(2) "1.IH" "1.prems"(1)
    by (subst (asm) commitLoop.simps)
      (auto simp: Let_def opened_closed_metrics split: if_splits prod.splits option.splits)
qed

lemma runIteration_balance:
  assumes m: "con_HasMetrics c" and "runIteration env c w = (out, w', as)"
  shows "opened as = closed as"
proof -
  obtain f w1 where f: "env_fetch env w = (f, w1)" by fastforce
  show ?thesis
  proof (cases f)
    case (Inl err)
    then show ?thesis
      using assms(2) f by (auto simp: runIteration_def Let_def opened_closed_metrics [OF m]
          split: if_splits prod.splits option.splits)
  next
    case (Inr msg)
    obtain sc err w2 as1 where pm: "processMessage env c msg w1 = ((sc, err), w2, as1)"
      by (metis prod.collapse)
    obtain r w3 as2 where cm: "commitWithRetry env c msg w2 = (r, w3, as2)" by (metis prod.collapse)
    have "opened as2 = closed as2"
      using commitLoop_balance [OF m] cm by (auto simp: commitWithRetry_def)
    then show ?thesis
      using assms(2) f Inr pm cm processMessage_balance [OF m pm]
      by (auto simp: runIteration_def Let_def opened_closed_metrics [OF m] split: if_splits option.splits)
  qed
qed

text \<open>
  C15: the message counters add up. In every run of a consumer with metrics, of any length and with any
  environment, the number of messages counted as received plus the read errors plus the commit errors is
  the number of statuses \<open>processed\<close>, \<open>invalid\<close> and \<open>failed\<close>: every message gets exactly one of them for its
  processing, and every failed read and every failed commit attempt one \<open>failed\<close>.
\<close>

theorem consumer_metrics_balance:
  fixes fuel env w
  assumes "con_HasMetrics c"
  defines "as \<equiv> snd (snd (consumer_Run fuel env c w))"
  shows "tally (ObserveKafkaMessage ''received'') as + tally IncKafkaReadError as + tally IncKafkaCommitError as =
    tally (ObserveKafkaMessage ''processed'') as + tally (ObserveKafkaMessage ''invalid'') as +
    tally (ObserveKafkaMessage ''failed'') as"
proof -
  have "opened (snd (snd (consumer_Run fuel env c w))) = closed (snd (snd (consumer_Run fuel env c w)))"
  proof (induction fuel arbitrary: w)
    case (Suc fuel)
    obtain out w' as1 where it: "runIteration env c w = (out, w', as1)" by (metis prod.collapse)
    then show ?case
      using runIteration_balance [OF assms(1) it] Suc.IH [of w'] by (cases out) (auto split: prod.splits)
  qed simp
  then show ?thesis by (simp add: opened_def closed_def as_def)
qed

lemma sample_run:
  "consumer_Run 2 sample_env sample_consumer 0 =
     (Some None, 6, [ActFetch (Inr sample_message), ActMetric (ObserveKafkaMessage ''received''),
        ActMetric (SetKafkaLastMessageTimestamp (at_unix 1000)), ActHandle sample_kafka_event None,
        ActMetric (ObserveKafkaMessage ''processed''), ActMetric (ObserveKafkaProcessingDuration 5),
        ActCommit sample_message (Some (ErrNew ''broker'')), ActMetric IncKafkaCommitError,
        ActMetric (ObserveKafkaMessage ''failed''), ActSleep second None, ActCommit sample_message None,
        ActFetch (Inl Canceled)])"
proof -
  have "runIteration sample_env sample_consumer 0 =
     (Continue, 5, [ActFetch (Inr sample_message), ActMetric (ObserveKafkaMessage ''received''),
        ActMetric (SetKafkaLastMessageTimestamp (at_unix 1000)), ActHandle sample_kafka_event None,
        ActMetric (ObserveKafkaMessage ''processed''), ActMetric (ObserveKafkaProcessingDuration 5),
        ActCommit sample_message (Some (ErrNew ''broker'')), ActMetric IncKafkaCommitError,
        ActMetric (ObserveKafkaMessage ''failed''), ActSleep second None, ActCommit sample_message None])"
  proof -
    have f: "env_fetch sample_env 0 = (Inr sample_message, 1)" by (simp add: sample_env_def)
    have p: "processMessage sample_env sample_consumer sample_message 1 = ((True, None), 2,
        [ActMetric (SetKafkaLastMessageTimestamp (at_unix 1000)), ActHandle sample_kafka_event None,
         ActMetric (ObserveKafkaMessage ''processed''), ActMetric (ObserveKafkaProcessingDuration 5)])"
      by (simp add: processMessage_def consumer_metric_defs sample_env_def sample_message_def
          sample_kafka_event_def sample_consumer_def)
    have "observeKafkaMessage sample_consumer ''received'' = [ActMetric (ObserveKafkaMessage ''received'')]"
      by (simp add: consumer_metric_defs sample_consumer_def)
    then show ?thesis by (simp add: runIteration_def f p sample_commit)
  qed
  moreover have "runIteration sample_env sample_consumer 5 = (Return None, 6, [ActFetch (Inl Canceled)])"
    by (simp add: runIteration_def sample_env_def isContextError_def)
  ultimately show ?thesis by (simp add: numeral_2_eq_2)
qed

theorem consumer_metrics_balance_witness:
  "tally (ObserveKafkaMessage ''received'') (snd (snd (consumer_Run 2 sample_env sample_consumer 0))) = 1 \<and>
   tally IncKafkaCommitError (snd (snd (consumer_Run 2 sample_env sample_consumer 0))) = 1 \<and>
   tally (ObserveKafkaMessage ''failed'') (snd (snd (consumer_Run 2 sample_env sample_consumer 0))) = 1"
proof -
  have "con_HasMetrics sample_consumer" by (simp add: sample_consumer_def)
  from consumer_metrics_balance [OF this, of 2 sample_env 0] show ?thesis by (simp add: sample_run)
qed

section \<open>How the loop ends\<close>

lemma runIteration_error:
  assumes "0 < commitRetries c" and "select_ok env" and "runIteration env c w = (Return (Some err), w', as)"
  shows "\<exists>e as0 as1. err = ErrWrap ''commit kafka message'' e \<and> as = as0 @ as1 \<and> retryable (Some e) \<and>
    int (length (commit_results as1)) = commitRetries c \<and> list_all retryable (commit_results as1) \<and>
    last (commit_results as1) = Some e"
proof -
  obtain f w1 where f: "env_fetch env w = (f, w1)" by fastforce
  show ?thesis
  proof (cases f)
    case (Inl e)
    then show ?thesis
      using assms(3) f by (auto simp: runIteration_def Let_def split: if_splits prod.splits option.splits)
  next
    case (Inr m)
    obtain sc e1 w2 as1 where pm: "processMessage env c m w1 = ((sc, e1), w2, as1)" by (metis prod.collapse)
    obtain r w3 as2 where cm: "commitWithRetry env c m w2 = (r, w3, as2)" by (metis prod.collapse)
    let ?pre = "ActFetch (Inr m) # observeKafkaMessage c ''received'' @ as1"
    obtain e where e: "r = Some e" "\<not> isContextError e" "err = ErrWrap ''commit kafka message'' e"
        "as = ?pre @ as2"
      using assms(3) f Inr pm cm by (auto simp: runIteration_def Let_def split: if_splits option.splits)
    then have "retryable r" by (simp add: retryable_def)
    then show ?thesis
      using commitWithRetry_outcome_lemma [OF assms(1,2) cm] e
      by (intro exI [of _ e] exI [of _ ?pre] exI [of _ as2]) auto
  qed
qed


text \<open>An environment in which every commit fails.\<close>

definition failing_env :: "int kafka_env" where
  "failing_env = sample_env\<lparr>env_commit := (\<lambda>m w. (Some (ErrNew ''broker''), w + 1))\<rparr>"


text \<open>
  \<open>Run\<close> stops with nil at shutdown: if the loop is still running after some iterations and the next
  fetch reports a context error, one more iteration returns nil, and nothing is handled or committed in it.
\<close>

lemma consumer_Run_shutdown:
  assumes "consumer_Run n env c w = (None, w', as)" and "env_fetch env w' = (Inl err, w'')"
    and "isContextError err"
  shows "consumer_Run (Suc n) env c w = (Some None, w'', as @ [ActFetch (Inl err)])"
  using assms(1)
proof (induction n arbitrary: w as)
  case 0
  then show ?case using assms(2,3) by (simp add: runIteration_def)
next
  case (Suc n)
  obtain w1 as1 as2 where it: "runIteration env c w = (Continue, w1, as1)"
      and r: "consumer_Run n env c w1 = (None, w', as2)" "as = as1 @ as2"
    using Suc.prems by (auto split: prod.splits outcome.splits)
  have "consumer_Run (Suc n) env c w1 = (Some None, w'', as2 @ [ActFetch (Inl err)])"
    using Suc.IH [OF r(1)] .
  then show ?case unfolding consumer_Run.simps(2) [of "Suc n"] using it r(2) by simp
qed

text \<open>
  With the JSON decoder a message is left uncommitted only because of the handler. For every JSON
  decoder and time parser, if \<open>processMessage\<close> asks not to commit a message then its payload decoded to an
  event for which the handler returned an error that is not a validation error, and that error is
  returned; a malformed or invalid payload is always committed, without a call of the handler.
\<close>

lemma json_processMessage_skips:
  assumes "env_decode env = json_Decode unmarshal parseTime"
    and "processMessage env c m w = ((False, err), w', as)"
  shows "\<exists>event e. env_decode env (msg_Value m) = Inr event \<and> env_handle env event w = (Some e, w') \<and>
    err = Some e \<and> \<not> IsValidationError e"
proof (cases rule: json.decode_cases [of unmarshal parseTime "msg_Value m"])
  case (event event)
  then show ?thesis
    using assms by (auto simp: processMessage_def Let_def split: prod.splits option.splits if_splits)
qed (use assms in \<open>auto simp: processMessage_def\<close>)

end
