(* ===== verification/Metrics.thy ===== *)
theory Metrics
  imports Metric_Calls Go_Float
begin

text \<open>
  \<open>internal/metrics/metrics.go\<close>. A collector is an object with an address; \<open>prometheus.NewCounter\<close> and its
  siblings allocate the next address. The registry of the Prometheus library is a state \<open>'g\<close> with the
  argument \<open>register\<close> for \<open>Registry.Register\<close>. What a method of \<open>Metrics\<close> does to the collectors is the list of
  its collector operations, in order.
\<close>

section \<open>Collectors\<close>

datatype collector_type = CounterT | CounterVecT | GaugeT | HistogramT | HistogramVecT

text \<open>\<open>col_types\<close> are the types that a type assertion on the collector finds: a gauge has the methods of a counter.\<close>

record collector =
  col_addr :: nat
  col_types :: "collector_type list"
  col_name :: string
  col_help :: string
  col_labels :: "string list"

datatype register_result = Registered | AlreadyRegistered collector | RegisterFailed go_error

type_synonym 'g register = "collector \<Rightarrow> 'g \<Rightarrow> register_result \<times> 'g"

type_synonym ('g, 'a) registering = "'g \<times> nat \<Rightarrow> (go_error + 'a) \<times> ('g \<times> nat)"

definition reg_return :: "'a \<Rightarrow> ('g, 'a) registering" where
  "reg_return a st = (Inr a, st)"

text \<open>\<open>x, err = f(); if err != nil { return nil, err }\<close>\<close>

definition reg_bind :: "('g, 'a) registering \<Rightarrow> ('a \<Rightarrow> ('g, 'b) registering) \<Rightarrow> ('g, 'b) registering" where
  "reg_bind f k st = (case f st of (Inl err, st1) \<Rightarrow> (Inl err, st1) | (Inr a, st1) \<Rightarrow> k a st1)"

definition metric_namespace :: string where
  "metric_namespace = ''search_trends''"

definition newCollector :: "collector_type list \<Rightarrow> string \<Rightarrow> string \<Rightarrow> string list \<Rightarrow> nat \<Rightarrow> collector" where
  "newCollector types name hlp labels addr =
     \<lparr>col_addr = addr, col_types = types, col_name = metric_namespace @ ''_'' @ name, col_help = hlp,
      col_labels = labels\<rparr>"

text \<open>The common body of the register functions, with the asserted type and the types of the new collector.\<close>

definition registerAs ::
  "collector_type \<Rightarrow> collector_type list \<Rightarrow> 'g register \<Rightarrow> string \<Rightarrow> string \<Rightarrow> string list \<Rightarrow>
   ('g, collector) registering" where
  "registerAs wanted types register name hlp labels st =
     (let (g, addr) = st; collector = newCollector types name hlp labels addr
      in case register collector g of
           (Registered, g1) \<Rightarrow> (Inr collector, (g1, addr + 1))
         | (AlreadyRegistered existing, g1) \<Rightarrow>
             (if wanted \<notin> set (col_types existing)
              then (Inl (ErrNew (''collector '' @ name @ '' already registered with incompatible type'')),
                    (g1, addr + 1))
              else (Inr existing, (g1, addr + 1)))
         | (RegisterFailed err, g1) \<Rightarrow> (Inl err, (g1, addr + 1)))"

definition registerCounter :: "'g register \<Rightarrow> string \<Rightarrow> string \<Rightarrow> ('g, collector) registering" where
  "registerCounter register name hlp = registerAs CounterT [CounterT] register name hlp []"

definition registerCounterVec ::
  "'g register \<Rightarrow> string \<Rightarrow> string \<Rightarrow> string list \<Rightarrow> ('g, collector) registering" where
  "registerCounterVec = registerAs CounterVecT [CounterVecT]"

definition registerGauge :: "'g register \<Rightarrow> string \<Rightarrow> string \<Rightarrow> ('g, collector) registering" where
  "registerGauge register name hlp = registerAs GaugeT [GaugeT, CounterT] register name hlp []"

definition registerHistogram :: "'g register \<Rightarrow> string \<Rightarrow> string \<Rightarrow> ('g, collector) registering" where
  "registerHistogram register name hlp = registerAs HistogramT [HistogramT] register name hlp []"

definition registerHistogramVec ::
  "'g register \<Rightarrow> string \<Rightarrow> string \<Rightarrow> string list \<Rightarrow> ('g, collector) registering" where
  "registerHistogramVec = registerAs HistogramVecT [HistogramVecT]"

section \<open>The metrics\<close>

record metrics =
  KafkaMessages :: collector
  KafkaProcessingDuration :: collector
  KafkaLastMessageTimestamp :: collector
  KafkaDecodeErrors :: collector
  KafkaCommitErrors :: collector
  KafkaReadErrors :: collector
  EventsTotal :: collector
  UniqueQueries :: collector
  TopCacheSize :: collector
  TopRebuildDuration :: collector
  TopRebuildTotal :: collector
  WindowBucketsTotal :: collector
  CurrentWindowSeconds :: collector
  GRPCRequests :: collector
  GRPCRequestDuration :: collector
  StopListSize :: collector
  StopListOperations :: collector
  AntiSpamChecks :: collector
  AntiSpamActiveKeys :: collector

text \<open>
  \<open>WithLabelValues\<close> alone creates the series, \<open>Inc\<close> and \<open>Observe\<close> take the label values of the series (none
  for a collector without labels).
\<close>

datatype prom_op =
    PromWith collector "string list"
  | PromInc collector "string list"
  | PromSet collector rat
  | PromObserve collector "string list" rat

definition primeLabels :: "metrics \<Rightarrow> prom_op list" where
  "primeLabels m =
     map (\<lambda>status. PromWith (KafkaMessages m) [status]) [''received'', ''processed'', ''invalid'', ''failed''] @
     map (\<lambda>status. PromWith (EventsTotal m) [status])
       [''accepted'', ''rejected'', ''stopped'', ''rate_limited'', ''expired'', ''invalid''] @
     map (\<lambda>status. PromWith (TopRebuildTotal m) [status]) [''success'', ''failed''] @
     concat (map (\<lambda>operation. map (\<lambda>status. PromWith (StopListOperations m) [operation, status])
       [''success'', ''failed'']) [''add'', ''remove'', ''list'']) @
     map (\<lambda>result. PromWith (AntiSpamChecks m) [result]) [''allowed'', ''blocked'']"

fun metric_ops :: "metrics \<Rightarrow> metric_call \<Rightarrow> prom_op list" where
  "metric_ops m (ObserveKafkaMessage status) = [PromInc (KafkaMessages m) [status]]"
| "metric_ops m (ObserveKafkaProcessingDuration d) =
     [PromObserve (KafkaProcessingDuration m) [] (duration_Seconds d)]"
| "metric_ops m (SetKafkaLastMessageTimestamp t) =
     [PromSet (KafkaLastMessageTimestamp m) (f64 (of_int (time_Unix t)))]"
| "metric_ops m IncKafkaDecodeError = [PromInc (KafkaDecodeErrors m) []]"
| "metric_ops m IncKafkaCommitError = [PromInc (KafkaCommitErrors m) []]"
| "metric_ops m IncKafkaReadError = [PromInc (KafkaReadErrors m) []]"
| "metric_ops m (ObserveEvent status) = [PromInc (EventsTotal m) [status]]"
| "metric_ops m (SetUniqueQueries n) = [PromSet (UniqueQueries m) (f64 (of_int n))]"
| "metric_ops m (SetTopCacheSize n) = [PromSet (TopCacheSize m) (f64 (of_int n))]"
| "metric_ops m (ObserveTopRebuild status d) =
     [PromInc (TopRebuildTotal m) [status], PromObserve (TopRebuildDuration m) [] (duration_Seconds d)]"
| "metric_ops m (SetWindowBuckets n) = [PromSet (WindowBucketsTotal m) (f64 (of_int n))]"
| "metric_ops m (SetCurrentWindowSeconds n) = [PromSet (CurrentWindowSeconds m) (f64 (of_int n))]"
| "metric_ops m (ObserveGRPCRequest meth code d) =
     [PromInc (GRPCRequests m) [meth, code],
      PromObserve (GRPCRequestDuration m) [meth] (duration_Seconds d)]"
| "metric_ops m (SetStopListSize n) = [PromSet (StopListSize m) (f64 (of_int n))]"
| "metric_ops m (ObserveStopListOperation operation status) =
     [PromInc (StopListOperations m) [operation, status]]"
| "metric_ops m (ObserveAntiSpamCheck result) = [PromInc (AntiSpamChecks m) [result]]"
| "metric_ops m (SetAntiSpamActiveKeys n) = [PromSet (AntiSpamActiveKeys m) (f64 (of_int n))]"

text \<open>
  \<open>New\<close> makes the register calls one after the other and stops at the first error; on success it creates the
  series of the known label values.
\<close>

definition metrics_New :: "'g register \<Rightarrow> bool \<Rightarrow> ('g, metrics \<times> prom_op list) registering" where
  "metrics_New register registryNil =
     (if registryNil then (\<lambda>st. (Inl (ErrNew ''prometheus registry is required''), st)) else
     reg_bind (registerCounterVec register ''kafka_messages_total''
       ''Total number of Kafka messages by processing status.'' [''status'']) (\<lambda>kafkaMessages.
     reg_bind (registerHistogram register ''kafka_processing_duration_seconds''
       ''Kafka message processing duration in seconds.'') (\<lambda>kafkaProcessingDuration.
     reg_bind (registerGauge register ''kafka_last_message_timestamp_seconds''
       ''Unix timestamp of the last successfully decoded Kafka event.'') (\<lambda>kafkaLastMessageTimestamp.
     reg_bind (registerCounter register ''kafka_decode_errors_total''
       ''Total number of Kafka payload decode errors.'') (\<lambda>kafkaDecodeErrors.
     reg_bind (registerCounter register ''kafka_commit_errors_total''
       ''Total number of Kafka commit errors.'') (\<lambda>kafkaCommitErrors.
     reg_bind (registerCounter register ''kafka_read_errors_total''
       ''Total number of Kafka read errors.'') (\<lambda>kafkaReadErrors.
     reg_bind (registerCounterVec register ''events_total''
       ''Total number of search events by business processing status.'' [''status'']) (\<lambda>eventsTotal.
     reg_bind (registerGauge register ''unique_queries''
       ''Current number of unique queries in the aggregation window.'') (\<lambda>uniqueQueries.
     reg_bind (registerGauge register ''top_cache_size''
       ''Current number of items in the cached Top-N snapshot.'') (\<lambda>topCacheSize.
     reg_bind (registerHistogram register ''top_rebuild_duration_seconds''
       ''Top cache rebuild duration in seconds.'') (\<lambda>topRebuildDuration.
     reg_bind (registerCounterVec register ''top_rebuild_total''
       ''Total number of top cache rebuild attempts by status.'' [''status'']) (\<lambda>topRebuildTotal.
     reg_bind (registerGauge register ''window_buckets_total''
       ''Number of buckets in the aggregation window.'') (\<lambda>windowBucketsTotal.
     reg_bind (registerGauge register ''current_window_seconds''
       ''Current aggregation window size in seconds.'') (\<lambda>currentWindowSeconds.
     reg_bind (registerCounterVec register ''grpc_requests_total''
       ''Total number of gRPC unary requests by method and status code.'' [''method'', ''code'']) (\<lambda>grpcRequests.
     reg_bind (registerHistogramVec register ''grpc_request_duration_seconds''
       ''gRPC unary request duration in seconds.'' [''method'']) (\<lambda>grpcRequestDuration.
     reg_bind (registerGauge register ''stoplist_size''
       ''Current number of stop-list entries.'') (\<lambda>stopListSize.
     reg_bind (registerCounterVec register ''stoplist_operations_total''
       ''Total number of stop-list operations by operation and status.'' [''operation'', ''status'']) (\<lambda>stopListOperations.
     reg_bind (registerCounterVec register ''antispam_checks_total''
       ''Total number of anti-spam checks by result.'' [''result'']) (\<lambda>antiSpamChecks.
     reg_bind (registerGauge register ''antispam_active_keys''
       ''Current number of active actor/query keys in anti-spam state.'') (\<lambda>antiSpamActiveKeys.
     let m = \<lparr>KafkaMessages = kafkaMessages, KafkaProcessingDuration = kafkaProcessingDuration,
       KafkaLastMessageTimestamp = kafkaLastMessageTimestamp, KafkaDecodeErrors = kafkaDecodeErrors,
       KafkaCommitErrors = kafkaCommitErrors, KafkaReadErrors = kafkaReadErrors,
       EventsTotal = eventsTotal, UniqueQueries = uniqueQueries, TopCacheSize = topCacheSize,
       TopRebuildDuration = topRebuildDuration, TopRebuildTotal = topRebuildTotal,
       WindowBucketsTotal = windowBucketsTotal, CurrentWindowSeconds = currentWindowSeconds,
       GRPCRequests = grpcRequests, GRPCRequestDuration = grpcRequestDuration,
       StopListSize = stopListSize, StopListOperations = stopListOperations,
       AntiSpamChecks = antiSpamChecks, AntiSpamActiveKeys = antiSpamActiveKeys\<rparr>
     in reg_return (m, primeLabels m)))))))))))))))))))))"

section \<open>The registrations as a list\<close>

definition metric_descs :: "(collector_type \<times> collector_type list \<times> string \<times> string \<times> string list) list" where
  "metric_descs =
    [(CounterVecT, [CounterVecT], ''kafka_messages_total'',
       ''Total number of Kafka messages by processing status.'', [''status'']),
     (HistogramT, [HistogramT], ''kafka_processing_duration_seconds'',
       ''Kafka message processing duration in seconds.'', []),
     (GaugeT, [GaugeT, CounterT], ''kafka_last_message_timestamp_seconds'',
       ''Unix timestamp of the last successfully decoded Kafka event.'', []),
     (CounterT, [CounterT], ''kafka_decode_errors_total'',
       ''Total number of Kafka payload decode errors.'', []),
     (CounterT, [CounterT], ''kafka_commit_errors_total'',
       ''Total number of Kafka commit errors.'', []),
     (CounterT, [CounterT], ''kafka_read_errors_total'',
       ''Total number of Kafka read errors.'', []),
     (CounterVecT, [CounterVecT], ''events_total'',
       ''Total number of search events by business processing status.'', [''status'']),
     (GaugeT, [GaugeT, CounterT], ''unique_queries'',
       ''Current number of unique queries in the aggregation window.'', []),
     (GaugeT, [GaugeT, CounterT], ''top_cache_size'',
       ''Current number of items in the cached Top-N snapshot.'', []),
     (HistogramT, [HistogramT], ''top_rebuild_duration_seconds'',
       ''Top cache rebuild duration in seconds.'', []),
     (CounterVecT, [CounterVecT], ''top_rebuild_total'',
       ''Total number of top cache rebuild attempts by status.'', [''status'']),
     (GaugeT, [GaugeT, CounterT], ''window_buckets_total'',
       ''Number of buckets in the aggregation window.'', []),
     (GaugeT, [GaugeT, CounterT], ''current_window_seconds'',
       ''Current aggregation window size in seconds.'', []),
     (CounterVecT, [CounterVecT], ''grpc_requests_total'',
       ''Total number of gRPC unary requests by method and status code.'', [''method'', ''code'']),
     (HistogramVecT, [HistogramVecT], ''grpc_request_duration_seconds'',
       ''gRPC unary request duration in seconds.'', [''method'']),
     (GaugeT, [GaugeT, CounterT], ''stoplist_size'',
       ''Current number of stop-list entries.'', []),
     (CounterVecT, [CounterVecT], ''stoplist_operations_total'',
       ''Total number of stop-list operations by operation and status.'', [''operation'', ''status'']),
     (CounterVecT, [CounterVecT], ''antispam_checks_total'',
       ''Total number of anti-spam checks by result.'', [''result'']),
     (GaugeT, [GaugeT, CounterT], ''antispam_active_keys'',
       ''Current number of active actor/query keys in anti-spam state.'', [])]"

fun registerAll ::
  "'g register \<Rightarrow> (collector_type \<times> collector_type list \<times> string \<times> string \<times> string list) list \<Rightarrow>
   ('g, collector list) registering" where
  "registerAll register [] = reg_return []"
| "registerAll register ((wanted, types, name, hlp, labels) # ds) =
     reg_bind (registerAs wanted types register name hlp labels) (\<lambda>c.
     reg_bind (registerAll register ds) (\<lambda>cs. reg_return (c # cs)))"

fun metrics_of :: "collector list \<Rightarrow> metrics" where
  "metrics_of [c1, c2, c3, c4, c5, c6, c7, c8, c9, c10, c11, c12, c13, c14, c15, c16, c17, c18, c19] =
     \<lparr>KafkaMessages = c1, KafkaProcessingDuration = c2, KafkaLastMessageTimestamp = c3,
      KafkaDecodeErrors = c4, KafkaCommitErrors = c5, KafkaReadErrors = c6, EventsTotal = c7,
      UniqueQueries = c8, TopCacheSize = c9, TopRebuildDuration = c10, TopRebuildTotal = c11,
      WindowBucketsTotal = c12, CurrentWindowSeconds = c13, GRPCRequests = c14,
      GRPCRequestDuration = c15, StopListSize = c16, StopListOperations = c17, AntiSpamChecks = c18,
      AntiSpamActiveKeys = c19\<rparr>"

lemma reg_bind_return [simp]: "reg_bind (reg_return a) k = k a"
  by (simp add: fun_eq_iff reg_bind_def reg_return_def)

lemma reg_bind_assoc [simp]: "reg_bind (reg_bind f k) h = reg_bind f (\<lambda>a. reg_bind (k a) h)"
  by (simp add: fun_eq_iff reg_bind_def split: prod.splits sum.splits)

lemma metrics_New_list:
  "metrics_New register False =
     reg_bind (registerAll register metric_descs)
       (\<lambda>cs. reg_return (metrics_of cs, primeLabels (metrics_of cs)))"
  by (simp add: metrics_New_def metric_descs_def Let_def registerCounter_def registerCounterVec_def
      registerGauge_def registerHistogram_def registerHistogramVec_def)

section \<open>Registering on a registry\<close>

text \<open>
  What \<open>Registry.Register\<close> documents, for collectors without constant labels: \<open>view\<close> lists the registered
  collectors, whose names are distinct. A collector with a valid and unused name is added; one with the name,
  the help text and the label names of a registered collector is refused with that collector; every other one
  is refused with an error.
\<close>

type_synonym desc = "collector_type \<times> collector_type list \<times> string \<times> string \<times> string list"

definition prom_name :: "string \<Rightarrow> bool" where
  "prom_name s \<longleftrightarrow> s \<noteq> [] \<and> list_all (\<lambda>c. CHR ''a'' \<le> c \<and> c \<le> CHR ''z'' \<or> c = CHR ''_'') s"

definition registry_ok :: "'g register \<Rightarrow> ('g \<Rightarrow> collector list) \<Rightarrow> bool" where
  "registry_ok register view \<longleftrightarrow>
     (\<forall>g. distinct (map col_name (view g))) \<and>
     (\<forall>c g. prom_name (col_name c) \<and> list_all prom_name (col_labels c) \<longrightarrow>
        (case find (\<lambda>e. col_name e = col_name c) (view g) of
           None \<Rightarrow> fst (register c g) = Registered \<and> view (snd (register c g)) = c # view g
         | Some e \<Rightarrow> snd (register c g) = g \<and>
             (if col_help e = col_help c \<and> mset (col_labels e) = mset (col_labels c)
              then fst (register c g) = AlreadyRegistered e
              else \<exists>err. fst (register c g) = RegisterFailed err)))"

text \<open>A collector that serves a registration: it has the asserted type, the name, the help text and the labels.\<close>

definition fq_name :: "desc \<Rightarrow> string" where
  "fq_name d = (let (wanted, types, name, hlp, labels) = d in metric_namespace @ ''_'' @ name)"

definition serves :: "desc \<Rightarrow> collector \<Rightarrow> bool" where
  "serves d c = (let (wanted, types, name, hlp, labels) = d
     in wanted \<in> set (col_types c) \<and> col_name c = fq_name d \<and> col_help c = hlp \<and>
        mset (col_labels c) = mset labels)"

definition valid_desc :: "desc \<Rightarrow> bool" where
  "valid_desc d = (let (wanted, types, name, hlp, labels) = d
     in wanted \<in> set types \<and> prom_name (fq_name d) \<and> list_all prom_name labels)"

definition registerDesc :: "'g register \<Rightarrow> desc \<Rightarrow> ('g, collector) registering" where
  "registerDesc register d = (let (wanted, types, name, hlp, labels) = d
     in registerAs wanted types register name hlp labels)"

lemma registerAll_Cons [simp]:
  "registerAll register (d # ds) =
     reg_bind (registerDesc register d) (\<lambda>c. reg_bind (registerAll register ds) (\<lambda>cs. reg_return (c # cs)))"
  by (cases d) (simp add: registerDesc_def)

declare registerAll.simps(2) [simp del]

lemma find_by_name:
  "distinct (map col_name es) \<Longrightarrow> c \<in> set es \<Longrightarrow> find (\<lambda>e. col_name e = col_name c) es = Some c"
  by (induction es) (auto simp: rev_image_eqI)

lemma registry_law:
  assumes "registry_ok register view" and "prom_name (col_name c)" and "list_all prom_name (col_labels c)"
  shows "case find (\<lambda>e. col_name e = col_name c) (view g) of
      None \<Rightarrow> fst (register c g) = Registered \<and> view (snd (register c g)) = c # view g
    | Some e \<Rightarrow> snd (register c g) = g \<and>
        (if col_help e = col_help c \<and> mset (col_labels e) = mset (col_labels c)
         then fst (register c g) = AlreadyRegistered e
         else \<exists>err. fst (register c g) = RegisterFailed err)"
  using assms unfolding registry_ok_def by blast

lemma registry_absent:
  assumes "registry_ok register view" and "prom_name (col_name c)" and "list_all prom_name (col_labels c)"
    and "col_name c \<notin> col_name ` set (view g)"
  obtains g' where "register c g = (Registered, g')" and "view g' = c # view g"
proof -
  have "find (\<lambda>e. col_name e = col_name c) (view g) = None"
    using assms(4) by (metis (mono_tags, lifting) find_None_iff image_eqI)
  then show ?thesis
    using registry_law [OF assms(1-3), of g] that by (cases "register c g") auto
qed

lemma registry_present:
  assumes "registry_ok register view" and "prom_name (col_name c)" and "list_all prom_name (col_labels c)"
    and "e \<in> set (view g)" and "col_name e = col_name c"
  shows "if col_help e = col_help c \<and> mset (col_labels e) = mset (col_labels c)
    then register c g = (AlreadyRegistered e, g) else \<exists>err. register c g = (RegisterFailed err, g)"
proof -
  have "find (\<lambda>x. col_name x = col_name c) (view g) = Some e"
    using find_by_name [of "view g" e] assms(1,4,5) by (simp add: registry_ok_def)
  then show ?thesis using registry_law [OF assms(1-3), of g] by (cases "register c g") auto
qed

lemma registerDesc_cases:
  assumes ok: "registry_ok register view" and d: "valid_desc d"
  shows "(fq_name d \<notin> col_name ` set (view g) \<longrightarrow>
      (\<exists>c g'. registerDesc register d (g, n) = (Inr c, (g', n + 1)) \<and> serves d c \<and> view g' = c # view g)) \<and>
    (\<forall>e. e \<in> set (view g) \<and> col_name e = fq_name d \<longrightarrow>
      registerDesc register d (g, n) = (Inr e, (g, n + 1)) \<and> serves d e \<or>
      (\<exists>err. registerDesc register d (g, n) = (Inl err, (g, n + 1))) \<and> \<not> serves d e)"
proof -
  obtain wanted types name hlp labels where w: "d = (wanted, types, name, hlp, labels)" by (cases d)
  let ?c = "newCollector types name hlp labels n"
  have c: "col_name ?c = fq_name d" "col_help ?c = hlp" "col_labels ?c = labels" "col_types ?c = types"
    by (simp_all add: newCollector_def fq_name_def w)
  have v: "prom_name (col_name ?c)" "list_all prom_name (col_labels ?c)" "wanted \<in> set types"
    using d by (simp_all add: valid_desc_def w c)
  have "\<exists>c g'. registerDesc register d (g, n) = (Inr c, (g', n + 1)) \<and> serves d c \<and> view g' = c # view g"
    if new: "fq_name d \<notin> col_name ` set (view g)"
  proof -
    obtain g' where g': "register ?c g = (Registered, g')" "view g' = ?c # view g"
      using registry_absent [OF ok v(1,2)] new unfolding c(1) by blast
    then show ?thesis using v(3) c
      by (simp add: registerDesc_def registerAs_def w Let_def) (simp add: serves_def w)
  qed
  moreover have "registerDesc register d (g, n) = (Inr e, (g, n + 1)) \<and> serves d e \<or>
      (\<exists>err. registerDesc register d (g, n) = (Inl err, (g, n + 1))) \<and> \<not> serves d e"
    if e: "e \<in> set (view g)" "col_name e = fq_name d" for e
    using registry_present [OF ok v(1,2) e(1)] e(2) c
    by (auto simp: registerDesc_def registerAs_def w Let_def serves_def split: if_splits)
  ultimately show ?thesis by blast
qed

lemma registerDesc_serves:
  assumes "registry_ok register view" and "valid_desc d"
    and "registerDesc register d (g, n) = (Inr c, (g', n'))"
  shows "serves d c \<and> c \<in> set (view g') \<and> set (view g) \<subseteq> set (view g')"
proof (cases "fq_name d \<in> col_name ` set (view g)")
  case True
  then obtain e where "e \<in> set (view g)" "col_name e = fq_name d" by force
  then show ?thesis using registerDesc_cases [OF assms(1,2), of g n] assms(3) by auto
next
  case False
  then show ?thesis using registerDesc_cases [OF assms(1,2), of g n] assms(3) by auto
qed

lemma registerAll_serves:
  assumes "registry_ok register view" and "list_all valid_desc ds"
    and "registerAll register ds (g, n) = (Inr cs, (g', n'))"
  shows "list_all2 serves ds cs \<and> set cs \<subseteq> set (view g') \<and> set (view g) \<subseteq> set (view g')"
  using assms(2,3)
proof (induction ds arbitrary: g n cs)
  case Nil
  then show ?case by (simp add: reg_return_def)
next
  case (Cons d ds)
  from Cons.prems(2) obtain c g1 n1 cs1 where c: "registerDesc register d (g, n) = (Inr c, (g1, n1))"
    and rest: "registerAll register ds (g1, n1) = (Inr cs1, (g', n'))" and cs: "cs = c # cs1"
    by (auto simp: reg_bind_def reg_return_def split: prod.splits sum.splits)
  show ?case
    using registerDesc_serves [OF assms(1) _ c] Cons.IH [OF _ rest] Cons.prems(1) cs by auto
qed

lemma registerAll_again:
  assumes "registry_ok register view" and "list_all valid_desc ds"
    and "list_all2 serves ds cs" and "set cs \<subseteq> set (view g)"
  shows "registerAll register ds (g, n) = (Inr cs, (g, n + length ds))"
  using assms(3,2,4)
proof (induction ds cs arbitrary: n rule: list_all2_induct)
  case Nil
  then show ?case by (simp add: reg_return_def)
next
  case (Cons d ds c cs)
  then have "c \<in> set (view g)" "col_name c = fq_name d" by (auto simp: serves_def split: prod.splits)
  then have "registerDesc register d (g, n) = (Inr c, (g, n + 1))"
    using registerDesc_cases [OF assms(1), of d g n] Cons by auto
  then show ?case using Cons by (simp add: reg_bind_def reg_return_def)
qed

lemma registerAll_fresh:
  assumes "registry_ok register view" and "list_all valid_desc ds" and "distinct (map fq_name ds)"
    and "\<forall>d\<in>set ds. fq_name d \<notin> col_name ` set (view g)"
  shows "\<exists>cs g'. registerAll register ds (g, n) = (Inr cs, (g', n + length ds))"
  using assms(2-4)
proof (induction ds arbitrary: g n)
  case Nil
  then show ?case by (simp add: reg_return_def)
next
  case (Cons d ds)
  then obtain c g1 where c: "registerDesc register d (g, n) = (Inr c, (g1, n + 1))" "serves d c"
    "view g1 = c # view g"
    using registerDesc_cases [OF assms(1), of d g n] by auto
  then have "col_name c = fq_name d" by (auto simp: serves_def split: prod.splits)
  then have "\<forall>d'\<in>set ds. fq_name d' \<notin> col_name ` set (view g1)"
    using Cons.prems c(3) by (auto simp: rev_image_eqI)
  with Cons obtain cs g' where "registerAll register ds (g1, n + 1) = (Inr cs, (g', n + 1 + length ds))"
    by (metis distinct.simps(2) list.pred_inject(2) list.simps(9))
  then show ?case using c(1) by (simp add: reg_bind_def reg_return_def)
qed

lemma metric_descs_valid: "list_all valid_desc metric_descs" "distinct (map fq_name metric_descs)"
  by code_simp+

section \<open>No method can panic\<close>

text \<open>
  \<open>WithLabelValues\<close> panics if the number of values differs from the number of label names. An operation is
  sound if its collector has the type of the operation and, for a vector, the right number of labels.
\<close>

fun op_ok :: "prom_op \<Rightarrow> bool" where
  "op_ok (PromWith c ls) \<longleftrightarrow>
     (CounterVecT \<in> set (col_types c) \<or> HistogramVecT \<in> set (col_types c)) \<and>
     length ls = length (col_labels c)"
| "op_ok (PromInc c ls) \<longleftrightarrow>
     (if ls = [] then CounterT \<in> set (col_types c)
      else CounterVecT \<in> set (col_types c) \<and> length ls = length (col_labels c))"
| "op_ok (PromSet c x) \<longleftrightarrow> GaugeT \<in> set (col_types c)"
| "op_ok (PromObserve c ls x) \<longleftrightarrow>
     (if ls = [] then HistogramT \<in> set (col_types c)
      else HistogramVecT \<in> set (col_types c) \<and> length ls = length (col_labels c))"

definition metric_collectors :: "metrics \<Rightarrow> collector list" where
  "metric_collectors m =
     [KafkaMessages m, KafkaProcessingDuration m, KafkaLastMessageTimestamp m, KafkaDecodeErrors m,
      KafkaCommitErrors m, KafkaReadErrors m, EventsTotal m, UniqueQueries m, TopCacheSize m,
      TopRebuildDuration m, TopRebuildTotal m, WindowBucketsTotal m, CurrentWindowSeconds m, GRPCRequests m,
      GRPCRequestDuration m, StopListSize m, StopListOperations m, AntiSpamChecks m, AntiSpamActiveKeys m]"

fun typed_for :: "desc \<Rightarrow> collector \<Rightarrow> bool" where
  "typed_for (wanted, types, name, hlp, labels) c \<longleftrightarrow>
     wanted \<in> set (col_types c) \<and> length (col_labels c) = length labels"

lemma serves_typed: "serves d c \<Longrightarrow> typed_for d c"
  by (cases d) (auto simp: serves_def dest: mset_eq_length)

lemma list_all2_names: "list_all2 serves ds cs \<Longrightarrow> map col_name cs = map fq_name ds"
  by (induction rule: list_all2_induct) (auto simp: serves_def split: prod.splits)

lemma metrics_New_serves:
  assumes "registry_ok register view"
    and "metrics_New register nil (g, n) = (Inr (m, ops), (g', n'))"
  shows "list_all2 serves metric_descs (metric_collectors m) \<and> set (metric_collectors m) \<subseteq> set (view g') \<and>
    ops = primeLabels m"
proof -
  have nil: "nil = False" using assms(2) by (auto simp: metrics_New_def)
  from assms(2) obtain cs where all: "registerAll register metric_descs (g, n) = (Inr cs, (g', n'))"
    and m: "m = metrics_of cs" "ops = primeLabels m"
    unfolding nil metrics_New_list
    by (auto simp: reg_bind_def reg_return_def split: prod.splits sum.splits)
  note s = registerAll_serves [OF assms(1) metric_descs_valid(1) all]
  then have "length cs = 19" by (simp add: list_all2_lengthD [of serves metric_descs, symmetric] metric_descs_def)
  then have "metric_collectors m = cs"
    unfolding m by (auto simp: metric_collectors_def length_Suc_conv eval_nat_numeral)
  then show ?thesis using s m by simp
qed


text \<open>A concrete registry: the list of the collectors that were added, where the first one with a name counts.\<close>

fun sample_view :: "collector list \<Rightarrow> collector list" where
  "sample_view [] = []"
| "sample_view (c # cs) =
     (if col_name c \<in> col_name ` set (sample_view cs) then sample_view cs else c # sample_view cs)"

definition sample_register :: "collector list register" where
  "sample_register c g =
     (case find (\<lambda>e. col_name e = col_name c) (sample_view g) of
        None \<Rightarrow> (Registered, c # g)
      | Some e \<Rightarrow>
          (if col_help e = col_help c \<and> mset (col_labels e) = mset (col_labels c) then AlreadyRegistered e
           else RegisterFailed (ErrNew ''descriptor mismatch''), g))"

lemma sample_registry_ok: "registry_ok sample_register sample_view"
proof -
  have "distinct (map col_name (sample_view g))" for g by (induction g) auto
  moreover have "sample_view (c # g) = c # sample_view g"
    if "find (\<lambda>e. col_name e = col_name c) (sample_view g) = None" for c g
    using that by (auto simp: find_None_iff)
  ultimately show ?thesis
    by (auto simp: registry_ok_def sample_register_def split: option.split simp del: sample_view.simps)
qed

text \<open>
  C38: on a registry that has none of the metric names, \<open>New\<close> succeeds; called again on the same registry it
  returns the very same collectors and registers nothing.
\<close>

theorem metrics_New_again:
  assumes "registry_ok register view"
    and "\<forall>d\<in>set metric_descs. fq_name d \<notin> col_name ` set (view g)"
  shows "\<exists>m g'. metrics_New register False (g, n) = (Inr (m, primeLabels m), (g', n + 19)) \<and>
    (\<forall>k. metrics_New register False (g', k) = (Inr (m, primeLabels m), (g', k + 19)))"
proof -
  obtain cs g' where cs: "registerAll register metric_descs (g, n) = (Inr cs, (g', n + length metric_descs))"
    using registerAll_fresh [OF assms(1) metric_descs_valid assms(2)] by blast
  note s = registerAll_serves [OF assms(1) metric_descs_valid(1) cs]
  have "registerAll register metric_descs (g', k) = (Inr cs, (g', k + length metric_descs))" for k
    using registerAll_again [OF assms(1) metric_descs_valid(1)] s by blast
  moreover have "length metric_descs = 19" by (simp add: metric_descs_def)
  ultimately show ?thesis
    unfolding metrics_New_list using cs by (auto simp: reg_bind_def reg_return_def intro!: exI)
qed

theorem metrics_New_again_witness:
  "\<exists>m g'. metrics_New sample_register False ([], 0) = (Inr (m, primeLabels m), (g', 19)) \<and>
     metrics_New sample_register False (g', 19) = (Inr (m, primeLabels m), (g', 38))"
  using metrics_New_again [OF sample_registry_ok, of "[]" 0] by auto

lemma sample_metrics:
  "\<exists>m g' n'. metrics_New sample_register False ([], 0) = (Inr (m, primeLabels m), (g', n'))"
  using registerAll_fresh [OF sample_registry_ok metric_descs_valid, of "[]" 0]
  unfolding metrics_New_list by (auto simp: reg_bind_def reg_return_def)


end
