(* ===== verification/App.thy ===== *)
theory App
  imports Server Antispam Config Kafka_Safety Metrics
begin

text \<open>
  \<open>cmd/app/main.go\<close>: the handler that the consumer calls for every event, and the construction of the
  service from its configuration. The constructors of the zap logger and the Prometheus registry are
  arguments.
\<close>

section \<open>The event handler\<close>

record app_state =
  app_agg :: aggregator
  app_stopWords :: manager
  app_limiter :: limiter

definition toSpamEvent :: "kafka_event \<Rightarrow> spam_event" where
  "toSpamEvent event = \<lparr>sp_EventID = ke_EventID event, sp_Query = ke_Query event,
     sp_UserIDHash = ke_UserID event, sp_SessionID = ke_SessionID event, sp_IPHash = ke_IP event,
     sp_Timestamp = ke_Timestamp event\<rparr>"

text \<open>
  The closure passed to \<open>NewConsumer\<close>. The context is polled by \<open>Allow\<close> and again by \<open>Add\<close>: \<open>c1\<close> and \<open>c2\<close> are
  what they find. The metrics of the application are never nil.
\<close>

definition handleSearchEvent ::
  "app_state \<Rightarrow> ctx \<Rightarrow> ctx \<Rightarrow> gotime \<Rightarrow> kafka_event \<Rightarrow> go_error option \<times> app_state \<times> metric_call list" where
  "handleSearchEvent st c1 c2 now event =
     (if sl_Contains (app_stopWords st) (ke_Query event)
      then (None, st, [ObserveEvent ''stopped''])
      else (case spam_Allow (app_limiter st) c1 (toSpamEvent event) of
              ((decision, err), ms1) \<Rightarrow>
                (case err of
                   Some e \<Rightarrow> (Some e, st, ms1)
                 | None \<Rightarrow>
                     if \<not> Allowed decision then (None, st, ms1 @ [ObserveEvent ''rate_limited''])
                     else (case agg_Add (app_agg st) c2 now (ToAggregatorEvent event) of
                             (Some e, agg', ms2) \<Rightarrow>
                               (if IsValidationError e then None else Some e,
                                st\<lparr>app_agg := agg'\<rparr>, ms1 @ ms2)
                           | (None, agg', ms2) \<Rightarrow> (None, st\<lparr>app_agg := agg'\<rparr>, ms1 @ ms2)))))"

section \<open>Construction\<close>

definition toAggConfig :: "config \<Rightarrow> agg_config" where
  "toAggConfig cfg = (let ac = c_Aggregator cfg in
     \<lparr>Window = ac_Window ac, BucketSize = ac_BucketSize ac, DefaultLimit = ac_DefaultLimit ac,
      MaxLimit = ac_MaxLimit ac, TopRefreshInterval = ac_TopRefreshInterval ac,
      MaxQueryRunes = ac_MaxQueryRunes ac, AllowedFutureSkew = ac_AllowedFutureSkew ac,
      HasMetrics = True\<rparr>)"

definition toSpamConfig :: "config \<Rightarrow> spam_config" where
  "toSpamConfig cfg = (let s = c_AntiSpam cfg in
     \<lparr>spam_Enabled = as_Enabled s, MaxEventsPerIdentityPerMinute = as_MaxEventsPerIdentityPerMinute s,
      MaxSameQueryPerIdentityPerWindow = as_MaxSameQueryPerIdentityPerWindow s,
      spam_HasMetrics = True\<rparr>)"

text \<open>\<open>time.Duration(ms) * time.Millisecond\<close> wraps around.\<close>

definition toKafkaConfig :: "config \<Rightarrow> kafka_client_config" where
  "toKafkaConfig cfg = (let k = c_Kafka cfg in
     \<lparr>kc_Brokers = Brokers k, kc_Topic = Topic k, kc_GroupID = GroupID k, kc_ClientID = ClientID k,
      kc_MinBytes = MinBytes k, kc_MaxBytes = MaxBytes k,
      kc_MaxWait = wrap64 (MaxWaitMS k * millisecond),
      kc_CommitInterval = wrap64 (CommitIntervalMS k * millisecond),
      kc_StartOffset = StartOffset k, kc_CommitRetries = CommitRetries k,
      kc_RetryBackoff = RetryBackoff k\<rparr>)"

text \<open>\<open>newDevelopment\<close> and \<open>newProduction\<close> are the errors of the two zap constructors.\<close>

definition newLogger :: "go_error option \<Rightarrow> go_error option \<Rightarrow> string \<Rightarrow> go_error option" where
  "newLogger newDevelopment newProduction env =
     (if env = ''local'' \<or> env = ''dev'' then newDevelopment else newProduction)"

record 'g app_libs =
  lib_NewDevelopment :: "go_error option"
  lib_NewProduction :: "go_error option"
  lib_Register :: "'g register"
  lib_NewRegistry :: 'g

record app =
  app_config_of :: config
  app_metrics :: metrics
  app_init :: app_state
  app_reader :: reader_config
  app_consumer :: consumer
  app_metricsServer :: metrics_server
  app_calls :: "metric_call list"

text \<open>
  \<open>run\<close> up to the start of the goroutines. \<open>loaded\<close> is the result of \<open>config.Load\<close> and \<open>now\<close> is the clock of
  \<open>aggregator.New\<close>.
\<close>

definition app_start :: "'g app_libs \<Rightarrow> go_error + config \<Rightarrow> gotime \<Rightarrow> go_error + app" where
  "app_start lib loaded now =
     (case loaded of
        Inl err \<Rightarrow> Inl (ErrWrap ''load config'' err)
      | Inr cfg \<Rightarrow>
     (case newLogger (lib_NewDevelopment lib) (lib_NewProduction lib) (Env (c_App cfg)) of
        Some err \<Rightarrow> Inl (ErrWrap ''create logger'' err)
      | None \<Rightarrow>
     (case fst (metrics_New (lib_Register lib) False (lib_NewRegistry lib, 0)) of
        Inl err \<Rightarrow> Inl (ErrWrap ''create metrics'' err)
      | Inr (metrics, _) \<Rightarrow>
     (case agg_New (toAggConfig cfg) now of
        Inl err \<Rightarrow> Inl (ErrWrap ''create aggregator'' err)
      | Inr (agg, ms1) \<Rightarrow>
     (let stopWords = sl_NewManager (InitialWords (c_StopList cfg));
          (lim, ms2) = NewLimiter (toSpamConfig cfg);
          ms3 = [SetStopListSize (sl_Size stopWords)]
      in case NewConsumer (toKafkaConfig cfg) True True of
           Inl err \<Rightarrow> Inl (ErrWrap ''create kafka consumer'' err)
         | Inr (reader, con) \<Rightarrow>
     (case NewGRPCServer (GRPCAddr (c_Server cfg)) True True True of
        Some err \<Rightarrow> Inl (ErrWrap ''create gRPC server'' err)
      | None \<Rightarrow>
          Inr \<lparr>app_config_of = cfg, app_metrics = metrics,
               app_init = \<lparr>app_agg = agg, app_stopWords = stopWords, app_limiter = lim\<rparr>,
               app_reader = reader, app_consumer = con,
               app_metricsServer = NewMetricsServer (metrics_Host (c_Metrics cfg))
                 (metrics_Port (c_Metrics cfg)) (metrics_Path (c_Metrics cfg)),
               app_calls = ms1 @ ms2 @ ms3\<rparr>))))))"

text \<open>\<open>run\<close> with what \<open>group.Wait\<close> returns, and the exit code of \<open>main\<close>.\<close>

definition app_run ::
  "'g app_libs \<Rightarrow> go_error + config \<Rightarrow> gotime \<Rightarrow> (app \<Rightarrow> go_error option) \<Rightarrow> go_error option" where
  "app_run lib loaded now group_Wait =
     (case app_start lib loaded now of
        Inl err \<Rightarrow> Some err
      | Inr app \<Rightarrow>
          (case group_Wait app of
             Some err \<Rightarrow> Some (ErrWrap ''service stopped with error'' err)
           | None \<Rightarrow> None))"

definition app_main :: "go_error option \<Rightarrow> int" where
  "app_main result = (case result of Some _ \<Rightarrow> 1 | None \<Rightarrow> 0)"

section \<open>What the handler does\<close>

lemma handle_unblocked:
  assumes "\<not> sl_Contains (app_stopWords st) (ke_Query event)" and "c1 = None"
  shows "handleSearchEvent st c1 c2 now event =
    (let (r, agg', ms) = agg_Add (app_agg st) c2 now (ToAggregatorEvent event)
     in (case r of Some e \<Rightarrow> if IsValidationError e then None else Some e | None \<Rightarrow> None,
         st\<lparr>app_agg := agg'\<rparr>, observeCheck (app_limiter st) ''allowed'' @ ms))"
  using assms by (simp add: handleSearchEvent_def spam_Allow_def split: prod.splits option.splits)

lemma handle_cases:
  obtains (stopped) "sl_Contains (app_stopWords st) (ke_Query event)"
      "handleSearchEvent st c1 c2 now event = (None, st, [ObserveEvent ''stopped''])"
  | (cancelled) e where "\<not> sl_Contains (app_stopWords st) (ke_Query event)" "c1 = Some e"
      "handleSearchEvent st c1 c2 now event = (Some e, st, [])"
  | (added) r agg' ms where "\<not> sl_Contains (app_stopWords st) (ke_Query event)" "c1 = None"
      "agg_Add (app_agg st) c2 now (ToAggregatorEvent event) = (r, agg', ms)"
      "handleSearchEvent st c1 c2 now event =
        (case r of Some e \<Rightarrow> if IsValidationError e then None else Some e | None \<Rightarrow> None,
         st\<lparr>app_agg := agg'\<rparr>, observeCheck (app_limiter st) ''allowed'' @ ms)"
proof (cases "sl_Contains (app_stopWords st) (ke_Query event)")
  case True
  then show ?thesis using stopped by (simp add: handleSearchEvent_def)
next
  case no: False
  show ?thesis
  proof (cases c1)
    case None
    obtain r agg' ms where "agg_Add (app_agg st) c2 now (ToAggregatorEvent event) = (r, agg', ms)"
      by (metis prod.collapse)
    then show ?thesis using added no None handle_unblocked [OF no None] by simp
  next
    case (Some e)
    then show ?thesis using cancelled no by (simp add: handleSearchEvent_def spam_Allow_def)
  qed
qed

lemma agg_Add_result:
  "fst (agg_Add a c now event) = Some e \<Longrightarrow> c = Some e \<or> c = None \<and> IsValidationError e"
  by (auto simp: agg_Add_def Let_def validateAndNormalize_def NormalizeQuery_eq IsValidationError_def
      split: option.splits sum.splits if_splits prod.splits)

text \<open>
  C31: the handler only fails when the context is done. For every state of the service and every event, an
  error it returns is an error that \<open>Allow\<close> or \<open>Add\<close> found in the context, and with the contexts the
  \<open>context\<close> package documents it is never a validation error; the aggregator's rejections are swallowed.
\<close>

theorem handler_fails_only_on_context:
  assumes "handleSearchEvent st c1 c2 now event = (Some e, st', ms)"
  shows "(c1 = Some e \<or> c1 = None \<and> c2 = Some e) \<and> st' = st \<and> (ctx_ok (Some e) \<longrightarrow> \<not> IsValidationError e)"
proof -
  have "\<not> IsValidationError e" if "ctx_ok (Some e)"
    using that by (auto simp: ctx_ok_def IsValidationError_def)
  moreover have "(c1 = Some e \<or> c1 = None \<and> c2 = Some e) \<and> st' = st"
  proof (cases rule: handle_cases [of st event c1 c2 now])
    case (added r agg' ms')
    then have r: "r = Some e" "\<not> IsValidationError e" using assms by (auto split: option.splits if_splits)
    then have "c2 = Some e" using agg_Add_result [of "app_agg st" c2 now "ToAggregatorEvent event" e] added(3) by auto
    moreover from this have "agg' = app_agg st" using added(3) by (simp add: agg_Add_def)
    ultimately show ?thesis using added(2,4) assms by (cases st) (simp split: option.splits)
  qed (use assms in auto)
  ultimately show ?thesis by blast
qed

theorem handler_fails_only_on_context_witness:
  "fst (handleSearchEvent \<lparr>app_agg = sample_agg 3 0, app_stopWords = sl_NewManager [],
      app_limiter = fst (NewLimiter (toSpamConfig defaultConfig))\<rparr> (Some Canceled) None 0 sample_kafka_event) =
     Some Canceled \<and> \<not> IsValidationError Canceled"
proof -
  let ?st = "\<lparr>app_agg = sample_agg 3 0, app_stopWords = sl_NewManager [],
      app_limiter = fst (NewLimiter (toSpamConfig defaultConfig))\<rparr>"
  have "handleSearchEvent ?st (Some Canceled) None 0 sample_kafka_event = (Some Canceled, ?st, [])"
    by (simp add: handleSearchEvent_def spam_Allow_def sl_Contains_def sl_NewManager_def sl_load_def
        buildSet_def gm_has_def)
  then show ?thesis using handler_fails_only_on_context by (fastforce simp: ctx_ok_def)
qed

section \<open>The stop list in front of the aggregator\<close>

text \<open>
  C13: the stop list blocks exactly the queries that would be counted under a listed word, as long as the
  raw query has no white space that is a control character. For every stop list that its operations can
  reach: if such an event is acceptable with normalised query \<open>q\<close>, then the handler counts it under \<open>q\<close> if
  \<open>q\<close> is not listed, and otherwise leaves the aggregator unchanged and counts it as \<open>stopped\<close>.
\<close>

theorem stop_list_blocks:
  fixes initial ops
  assumes "app_stopWords st = foldl sl_step (sl_NewManager initial) ops"
    and "event_query (agg_cfg (app_agg st)) now (ToAggregatorEvent event) = Some q"
    and "\<forall>r\<in>set (runes (ke_Query event)). \<not> (IsSpace r \<and> IsControl r)"
  shows "fst (snd (handleSearchEvent st None None now event)) =
    (if q \<in> set (sl_List (app_stopWords st)) then st
     else st\<lparr>app_agg := addLocked (app_agg st) now (bucketSecond (app_agg st) (ke_Timestamp event)) q\<rparr>) \<and>
    (q \<in> set (sl_List (app_stopWords st)) \<longleftrightarrow>
       snd (snd (handleSearchEvent st None None now event)) = [ObserveEvent ''stopped''])"
proof -
  let ?m = "app_stopWords st" and ?e = "ToAggregatorEvent event"
  have inv: "sl_inv ?m" using sl_reachable(1) assms(1) by simp
  have "NormalizeQuery (ke_Query event) (MaxQueryRunes (agg_cfg (app_agg st))) = Inr q"
    using assms(2) by (auto simp: event_query_def ToAggregatorEvent_def Let_def split: if_splits sum.splits)
  then have "q = encode (canonical (runes (ke_Query event)))" by (rule NormalizeQuery_InrD)
  then have "sl_normalize (ke_Query event) = q"
    using canonical_stop_runes [OF assms(3)] by (simp add: sl_normalize_eq)
  then have blocked: "sl_Contains ?m (ke_Query event) \<longleftrightarrow> q \<in> set (sl_List ?m)"
    using sl.contains_list [OF inv] by simp
  have v: "validateAndNormalize (app_agg st) ?e now = Inr (q, False)"
    using assms(2) by (simp add: validateAndNormalize_accepts)
  show ?thesis
  proof (cases "q \<in> set (sl_List ?m)")
    case True
    then show ?thesis using blocked by (simp add: handleSearchEvent_def)
  next
    case False
    then have "\<not> sl_Contains ?m (ke_Query event)" using blocked by simp
    then show ?thesis
      using False v by (simp add: handle_unblocked agg_Add_def Let_def ToAggregatorEvent_def)
        (simp add: observeEvent_def observeCheck_def setCounterMetricsLocked_def emit_def)
  qed
qed

definition sample_state :: "string list \<Rightarrow> app_state" where
  "sample_state words = \<lparr>app_agg = sample_agg 3 (at_unix 1000), app_stopWords = sl_NewManager words,
     app_limiter = fst (NewLimiter (toSpamConfig defaultConfig))\<rparr>"

theorem stop_list_blocks_witness:
  "fst (snd (handleSearchEvent (sample_state ['' TEA '']) None None (at_unix 1000) sample_kafka_event)) =
   sample_state ['' TEA '']"
proof -
  let ?st = "sample_state ['' TEA '']"
  have n: "NormalizeQuery ''tea'' 64 = Inr ''tea''" by code_simp
  have q: "event_query (agg_cfg (app_agg ?st)) (at_unix 1000) (ToAggregatorEvent sample_kafka_event) = Some ''tea''"
    using n by (simp add: event_query_def sample_state_def sample_agg_def sample_cfg_def
        ToAggregatorEvent_def sample_kafka_event_def at_unix_def unixToInternal_def)
  have r: "\<forall>r\<in>set (runes (ke_Query sample_kafka_event)). \<not> (IsSpace r \<and> IsControl r)" by code_simp
  have l: "''tea'' \<in> set (sl_List (sl_NewManager ['' TEA '']))" by code_simp
  have m: "app_stopWords ?st = foldl sl_step (sl_NewManager ['' TEA '']) []" by (simp add: sample_state_def)
  show ?thesis using stop_list_blocks [OF m q r] l by (simp add: sample_state_def)
qed


section \<open>The consumer with this handler\<close>

text \<open>
  The handler in the environment of the consumer: the state has the service's state as its first part,
  and \<open>poll\<close> says what the context and the clock show when the handler runs.
\<close>

definition app_handle ::
  "(app_state \<times> 'x \<Rightarrow> ctx \<times> ctx \<times> gotime) \<Rightarrow> kafka_event \<Rightarrow> app_state \<times> 'x \<Rightarrow>
   go_error option \<times> (app_state \<times> 'x)" where
  "app_handle poll event w =
     (case poll w of (c1, c2, now) \<Rightarrow>
        (case handleSearchEvent (fst w) c1 c2 now event of (r, st, ms) \<Rightarrow> (r, (st, snd w))))"

text \<open>The contexts that the handler polls, as the \<open>context\<close> package documents them.\<close>

definition poll_ok :: "(app_state \<times> 'x \<Rightarrow> ctx \<times> ctx \<times> gotime) \<Rightarrow> bool" where
  "poll_ok poll \<longleftrightarrow> (\<forall>w. ctx_ok (fst (poll w)) \<and> ctx_ok (fst (snd (poll w))))"

lemma handler_error_ctx:
  assumes "handleSearchEvent st c1 c2 now event = (Some e, st', ms)"
  shows "c1 = Some e \<or> c2 = Some e"
proof (cases rule: handle_cases [of st event c1 c2 now])
  case (added r agg' ms')
  then show ?thesis
    using assms agg_Add_result [of "app_agg st" c2 now "ToAggregatorEvent event" e]
    by (auto split: option.splits if_splits)
qed (use assms in auto)

lemma app_handle_error:
  assumes "poll_ok poll" and "app_handle poll event w = (Some e, w')"
  shows "e = Canceled \<or> e = DeadlineExceeded"
proof -
  obtain c1 c2 now where p: "poll w = (c1, c2, now)" by (metis prod.collapse)
  then have "c1 = Some e \<or> c2 = Some e"
    using assms(2) handler_error_ctx by (fastforce simp: app_handle_def split: prod.splits)
  moreover have "ctx_ok c1" "ctx_ok c2" using assms(1) p unfolding poll_ok_def by (metis fst_conv snd_conv)+
  ultimately show ?thesis by (auto simp: ctx_ok_def)
qed


text \<open>
  The service's environment for concrete runs: one message with a valid payload, then cancellation; the
  second part of the state counts the calls.
\<close>

definition sample_raw :: raw_event where
  "sample_raw = \<lparr>raw_EventID = ''1'', raw_Query = ''tea'', raw_UserID = [], raw_SessionID = [],
     raw_IP = [], raw_UserAgent = [], raw_Timestamp = ''t''\<rparr>"

definition service_env :: "gotime \<Rightarrow> (app_state \<times> int) kafka_env" where
  "service_env t = \<lparr>
     env_fetch = (\<lambda>w. (if snd w = 0 then Inr sample_message else Inl Canceled, (fst w, snd w + 1))),
     env_commit = (\<lambda>m w. (None, (fst w, snd w + 1))),
     env_select = (\<lambda>d w. (None, w)),
     env_decode = json_Decode (\<lambda>_. Inr sample_raw) (\<lambda>_. Inr t),
     env_handle = app_handle (\<lambda>w. (None, None, at_unix 1000)),
     env_since = (\<lambda>w. 5)\<rparr>"

lemma sample_decode:
  "json_Decode (\<lambda>_. Inr sample_raw) (\<lambda>_. Inr t) d = Inr (sample_kafka_event\<lparr>ke_Timestamp := t\<rparr>)"
proof -
  have "TrimSpace ''1'' = ''1''" "TrimSpace ''tea'' = ''tea''" "TrimSpace ''t'' = ''t''" "TrimSpace [] = []"
    by code_simp+
  then show ?thesis
    by (simp add: json_Decode_def sample_raw_def sample_kafka_event_def time_UTC_def)
qed

lemma service_iteration:
  "\<exists>st as. runIteration (service_env t) sample_consumer (sample_state [], 0) = (Continue, (st, 2), as) \<and>
     ActFetch (Inr sample_message) \<in> set as"
proof -
  have b: "\<not> sl_Contains (app_stopWords (sample_state [])) q" for q
    by (simp add: sample_state_def sl_Contains_def sl_NewManager_def sl_load_def buildSet_def gm_has_def)
  obtain r st ms where h: "handleSearchEvent (sample_state []) None None (at_unix 1000)
      (sample_kafka_event\<lparr>ke_Timestamp := t\<rparr>) = (r, st, ms)" by (metis prod.collapse)
  have "r = None" using handler_error_ctx [of "sample_state []" None None] h by (cases r) auto
  then have "env_handle (service_env t) (sample_kafka_event\<lparr>ke_Timestamp := t\<rparr>) (sample_state [], 1) =
      (None, (st, 1))"
    using h by (simp add: service_env_def app_handle_def)
  moreover have "env_decode (service_env t) d = Inr (sample_kafka_event\<lparr>ke_Timestamp := t\<rparr>)" for d
    by (simp add: service_env_def sample_decode)
  ultimately have "\<exists>as. processMessage (service_env t) sample_consumer sample_message (sample_state [], 1) =
      ((True, None), (st, 1), as)"
    by (simp add: processMessage_def)
  then obtain as where p: "processMessage (service_env t) sample_consumer sample_message (sample_state [], 1) =
      ((True, None), (st, 1), as)" by blast
  have f: "env_fetch (service_env t) (sample_state [], 0) = (Inr sample_message, (sample_state [], 1))"
    by (simp add: service_env_def)
  have c: "commitWithRetry (service_env t) sample_consumer sample_message (st, 1) =
      (None, (st, 2), [ActCommit sample_message None])"
    by (simp add: commitWithRetry_def commitLoop.simps sample_consumer_def service_env_def)
  show ?thesis by (simp add: runIteration_def f p c)
qed


text \<open>
  C30: an event that the aggregator rejects is reported as processed. With the service's handler the branch of
  \<open>processMessage\<close> for validation errors of the handler is never taken: for a payload that decodes, the
  status is \<open>processed\<close> or \<open>failed\<close>, never \<open>invalid\<close>, also when \<open>Add\<close> rejected the event, and it is
  \<open>processed\<close> whenever the contexts are live.
\<close>

theorem service_rejections_look_processed:
  fixes w :: "app_state \<times> 'x"
  assumes "poll_ok poll" and "env_handle env = app_handle poll"
    and "env_decode env (msg_Value m) = Inr event" and "processMessage env c m w = (r, w', as)"
  shows "ActMetric (ObserveKafkaMessage ''invalid'') \<notin> set as \<and>
    (\<forall>t. poll w = (None, None, t) \<longrightarrow>
       r = (True, None) \<and> set (observeKafkaMessage c ''processed'') \<subseteq> set as)"
proof -
  obtain h w1 where h: "env_handle env event w = (h, w1)" by (rule prod.exhaust)
  then have h': "app_handle poll event w = (h, w1)" using assms(2) by simp
  show ?thesis
  proof (cases h)
    case None
    then show ?thesis using assms(3,4) h by (auto simp: processMessage_def consumer_metric_defs)
  next
    case (Some e)
    then have e: "e = Canceled \<or> e = DeadlineExceeded" using app_handle_error [OF assms(1)] h' by simp
    moreover have "poll w \<noteq> (None, None, t)" for t
      using h' Some handler_error_ctx [of "fst w" None None t event e]
      by (auto simp: app_handle_def split: prod.splits)
    ultimately show ?thesis
      using assms(3,4) h Some
      by (auto simp: processMessage_def consumer_metric_defs IsValidationError_def)
  qed
qed

theorem service_rejections_look_processed_witness:
  "fst (agg_Add (app_agg (sample_state [])) None (at_unix 1000)
      (ToAggregatorEvent (sample_kafka_event\<lparr>ke_Timestamp := at_unix 2000\<rparr>))) = Some ErrEventFromFuture \<and>
   fst (processMessage (service_env (at_unix 2000)) sample_consumer sample_message (sample_state [], 1)) = (True, None)"
proof -
  have d: "env_decode (service_env (at_unix 2000)) (msg_Value sample_message) =
      Inr (sample_kafka_event\<lparr>ke_Timestamp := at_unix 2000\<rparr>)"
    by (simp add: service_env_def sample_decode)
  have p: "poll_ok (\<lambda>w :: app_state \<times> int. (None, None, at_unix 1000))"
    by (simp add: poll_ok_def ctx_ok_def)
  have h: "env_handle (service_env (at_unix 2000)) = app_handle (\<lambda>w. (None, None, at_unix 1000))"
    by (simp add: service_env_def)
  obtain r w' as where "processMessage (service_env (at_unix 2000)) sample_consumer sample_message
      (sample_state [], 1) = (r, w', as)" by (metis prod.collapse)
  from service_rejections_look_processed [OF p h d this] this
  show ?thesis
    by (simp add: agg_Add_def validateAndNormalize_def time_defs sample_state_def sample_agg_def
        sample_cfg_def ToAggregatorEvent_def sample_kafka_event_def at_unix_def unixToInternal_def)
qed

section \<open>Starting the service\<close>

lemma NewConsumer_valid:
  assumes "config_valid cfg"
  obtains rd con where "NewConsumer (toKafkaConfig cfg) True True = Inr (rd, con)"
    and "0 < commitRetries con" and "0 < retryBackoff con"
    and "rc_Topic rd = Topic (c_Kafka cfg)" and "rc_Brokers rd = Brokers (c_Kafka cfg)"
    and "rc_MinBytes rd = MinBytes (c_Kafka cfg)" and "rc_MaxBytes rd = MaxBytes (c_Kafka cfg)"
    and "rc_StartOffset rd = (if StartOffset (c_Kafka cfg) = ''latest'' then LastOffset else FirstOffset)"
    and "rc_MaxWait rd = (let d = wrap64 (MaxWaitMS (c_Kafka cfg) * millisecond)
           in if d \<le> 0 then second else d)"
proof -
  let ?k = "c_Kafka cfg"
  have v: "Brokers ?k \<noteq> []" "Topic ?k \<noteq> []" "GroupID ?k \<noteq> []" "0 < MinBytes ?k"
      "MinBytes ?k \<le> MaxBytes ?k" "StartOffset ?k \<in> {''latest'', ''earliest'', ''first''}"
    using assms by (auto simp: config_valid_def)
  define off where "off = (if StartOffset ?k = ''latest'' then LastOffset else FirstOffset)"
  have so: "parseStartOffset (StartOffset ?k) = Inr off"
    using v(6) by (auto simp: parseStartOffset_def off_def)
  define wait where "wait = wrap64 (MaxWaitMS ?k * millisecond)"
  define rd where "rd = \<lparr>rc_Brokers = Brokers ?k, rc_Topic = Topic ?k, rc_GroupID = GroupID ?k,
    rc_GroupTopics = [Topic ?k], rc_MinBytes = MinBytes ?k, rc_MaxBytes = MaxBytes ?k,
    rc_MaxWait = (if wait \<le> 0 then second else wait),
    rc_CommitInterval = wrap64 (CommitIntervalMS ?k * millisecond),
    rc_StartOffset = off\<rparr>"
  have "\<not> MinBytes ?k \<le> 0" "\<not> MaxBytes ?k \<le> 0" using v(4,5) by linarith+
  then have "newKafkaReader (toKafkaConfig cfg) = Inr rd"
    using v(1-3)
    by (simp add: newKafkaReader_def toKafkaConfig_def Let_def rd_def wait_def [symmetric] so)
  then show ?thesis
    by (intro that [of rd "\<lparr>commitRetries = (if CommitRetries ?k \<le> 0 then 3 else CommitRetries ?k),
        retryBackoff = (if RetryBackoff ?k \<le> 0 then 500 * millisecond else RetryBackoff ?k),
        con_HasMetrics = True\<rparr>"])
      (simp_all add: NewConsumer_def NewConsumerWithReader_def toKafkaConfig_def rd_def wait_def off_def Let_def)
qed

text \<open>The libraries work: both loggers can be created and the registry is new and behaves as documented.\<close>

definition libs_ok :: "'g app_libs \<Rightarrow> ('g \<Rightarrow> collector list) \<Rightarrow> bool" where
  "libs_ok lib view \<longleftrightarrow> lib_NewDevelopment lib = None \<and> lib_NewProduction lib = None \<and>
     registry_ok (lib_Register lib) view \<and> view (lib_NewRegistry lib) = []"

definition sample_libs :: "collector list app_libs" where
  "sample_libs = \<lparr>lib_NewDevelopment = None, lib_NewProduction = None, lib_Register = sample_register,
     lib_NewRegistry = []\<rparr>"

lemma sample_libs_ok: "libs_ok sample_libs sample_view"
  using sample_registry_ok by (simp add: libs_ok_def sample_libs_def)

lemma libs_ok_start:
  assumes "libs_ok lib view"
  obtains m where "newLogger (lib_NewDevelopment lib) (lib_NewProduction lib) env = None"
    and "fst (metrics_New (lib_Register lib) False (lib_NewRegistry lib, 0)) = Inr (m, primeLabels m)"
proof -
  have "registry_ok (lib_Register lib) view" "view (lib_NewRegistry lib) = []"
    using assms by (simp_all add: libs_ok_def)
  then obtain cs g' n where
    "registerAll (lib_Register lib) metric_descs (lib_NewRegistry lib, 0) = (Inr cs, (g', n))"
    using registerAll_fresh [OF _ metric_descs_valid, of "lib_Register lib" view "lib_NewRegistry lib" 0] by auto
  then show ?thesis
    using that assms by (simp add: metrics_New_list reg_bind_def reg_return_def libs_ok_def newLogger_def)
qed

lemma app_start_ok:
  assumes "libs_ok lib view" and "config_valid cfg"
    and "ac_Window (c_Aggregator cfg) mod ac_BucketSize (c_Aggregator cfg) = 0"
  shows "\<exists>app. app_start lib (Inr cfg) now = Inr app \<and> 0 < commitRetries (app_consumer app) \<and>
    app_stopWords (app_init app) = sl_NewManager (InitialWords (c_StopList cfg))"
proof -
  let ?ac = "c_Aggregator cfg"
  have v: "0 < ac_Window ?ac" "0 < ac_BucketSize ?ac" "0 < ac_DefaultLimit ?ac"
      "ac_DefaultLimit ?ac \<le> ac_MaxLimit ?ac" "GRPCAddr (c_Server cfg) \<noteq> []"
    using assms(2) by (auto simp: config_valid_def)
  have "BucketSize (defaultBucket (toAggConfig cfg)) = ac_BucketSize ?ac"
    using v(2) by (simp add: defaultBucket_def toAggConfig_def Let_def)
  moreover have "Window (toAggConfig cfg) = ac_Window ?ac" "DefaultLimit (toAggConfig cfg) = ac_DefaultLimit ?ac"
      "MaxLimit (toAggConfig cfg) = ac_MaxLimit ?ac"
    by (simp_all add: toAggConfig_def Let_def)
  ultimately have "\<exists>r. agg_New (toAggConfig cfg) now = Inr r"
    by (intro agg_New_ok) (use assms(3) v in simp_all)
  moreover have "NewGRPCServer (GRPCAddr (c_Server cfg)) True True True = None"
    using v(5) by (simp add: NewGRPCServer_def NewSearchTrendsHandler_def)
  moreover obtain rd con where "NewConsumer (toKafkaConfig cfg) True True = Inr (rd, con)" "0 < commitRetries con"
    using assms(2) by (rule NewConsumer_valid)
  moreover obtain m where "newLogger (lib_NewDevelopment lib) (lib_NewProduction lib) (Env (c_App cfg)) = None"
      "fst (metrics_New (lib_Register lib) False (lib_NewRegistry lib, 0)) = Inr (m, primeLabels m)"
    using assms(1) by (rule libs_ok_start)
  ultimately show ?thesis by (auto simp: app_start_def Let_def split: prod.splits)
qed





text \<open>
  C40: two kinds of metrics path pass \<open>Validate\<close> and start, but make the metrics server panic: \<open>/healthz\<close>,
  which the handler then registers twice, and a path without a slash. For every literal path the server
  panics exactly in these two cases.
\<close>

theorem metrics_path_collision:
  fixes path
  defines "cfg p \<equiv> defaultConfig\<lparr>c_Kafka := (c_Kafka defaultConfig)\<lparr>Brokers := [''k'']\<rparr>,
    c_Metrics := (c_Metrics defaultConfig)\<lparr>metrics_Path := p\<rparr>\<rparr>"
  assumes "literal_path path" and "path \<noteq> []"
  shows "config_Validate (cfg path) = None \<and>
    (MetricsServer_Run errServerClosed listenAndServe
       (NewMetricsServer (metrics_Host (c_Metrics (cfg path))) (metrics_Port (c_Metrics (cfg path))) path) = None \<longleftrightarrow>
     path = ''/healthz'' \<or> CHR ''/'' \<notin> set path)"
  using assms(3)
  by (auto simp: cfg_def config_Validate_def defaultConfig_def MetricsServer_Run_panics NewMetricsServer_def Let_def)

theorem metrics_path_collision_witness:
  "literal_path ''/healthz'' \<and> literal_path ''metrics'' \<and> literal_path ''/metrics'' \<and>
   MetricsServer_Run Canceled (\<lambda>_. None) (NewMetricsServer ''0.0.0.0'' 2112 ''/healthz'') = None \<and>
   MetricsServer_Run Canceled (\<lambda>_. None) (NewMetricsServer ''0.0.0.0'' 2112 ''metrics'') = None \<and>
   MetricsServer_Run Canceled (\<lambda>_. None) (NewMetricsServer ''0.0.0.0'' 2112 ''/metrics'') \<noteq> None"
proof -
  have l: "literal_path ''/healthz''" "literal_path ''metrics''" "literal_path ''/metrics''" by code_simp+
  show ?thesis
    using metrics_path_collision [OF l(1), of Canceled "\<lambda>_. None"] metrics_path_collision [OF l(2), of Canceled "\<lambda>_. None"]
      metrics_path_collision [OF l(3), of Canceled "\<lambda>_. None"] l by (simp add: defaultConfig_def)
qed

end
