(* ===== verification/Service.thy ===== *)
theory Service
  imports App
begin

text \<open>
  The running service of \<open>cmd/app/main.go\<close>: the consumer's goroutine, the goroutine that rebuilds the top and
  the goroutines of the gRPC server share the aggregator and the stop list. A step is what one goroutine does
  between two points where another can run. The methods of the aggregator and of the stop list are atomic; the
  handler is not: another goroutine can change the stop list between its \<open>Contains\<close> and its \<open>Add\<close>, so it takes
  two steps, and the event is in flight between them. There is one consumer, so at most one event is in flight.
\<close>

section \<open>Steps\<close>

text \<open>The handler from \<open>Allow\<close> on.\<close>

definition handle_count ::
  "app_state \<Rightarrow> ctx \<Rightarrow> ctx \<Rightarrow> gotime \<Rightarrow> kafka_event \<Rightarrow> go_error option \<times> app_state \<times> metric_call list" where
  "handle_count st c1 c2 now event =
     (case spam_Allow (app_limiter st) c1 (toSpamEvent event) of
        ((decision, err), ms1) \<Rightarrow>
          (case err of
             Some e \<Rightarrow> (Some e, st, ms1)
           | None \<Rightarrow>
               if \<not> Allowed decision then (None, st, ms1 @ [ObserveEvent ''rate_limited''])
               else (case agg_Add (app_agg st) c2 now (ToAggregatorEvent event) of
                       (Some e, agg', ms2) \<Rightarrow>
                         (if IsValidationError e then None else Some e, st\<lparr>app_agg := agg'\<rparr>, ms1 @ ms2)
                     | (None, agg', ms2) \<Rightarrow> (None, st\<lparr>app_agg := agg'\<rparr>, ms1 @ ms2))))"

lemma handleSearchEvent_split:
  "handleSearchEvent st c1 c2 now event =
     (if sl_Contains (app_stopWords st) (ke_Query event) then (None, st, [ObserveEvent ''stopped''])
      else handle_count st c1 c2 now event)"
  by (simp add: handleSearchEvent_def handle_count_def)

datatype rpc =
    RpcGetTop "32 word option"
  | RpcAddStopWord "string option"
  | RpcRemoveStopWord "string option"
  | RpcListStopWords
  | RpcHealthCheck gotime

datatype rpc_reply =
    ReplyTop get_top_response
  | ReplyStopWord stop_word_response
  | ReplyWords "string list"
  | ReplyHealth health_response

fun with_reply ::
  "('r \<Rightarrow> rpc_reply) \<Rightarrow> (status_error + 'r) \<times> manager \<times> metric_call list \<Rightarrow>
   (status_error + rpc_reply) \<times> manager \<times> metric_call list" where
  "with_reply f (resp, m, ms) = (map_sum id f resp, m, ms)"

text \<open>The methods that the gRPC server dispatches to, on the aggregator and the stop list of the service.\<close>

fun serve_rpc :: "app_state \<Rightarrow> ctx \<Rightarrow> rpc \<Rightarrow> (status_error + rpc_reply) \<times> manager \<times> metric_call list" where
  "serve_rpc st c (RpcGetTop req) =
     (map_sum id ReplyTop (srv_GetTop (agg_Snapshot (app_agg st)) c req), app_stopWords st, [])"
| "serve_rpc st c (RpcAddStopWord req) =
     with_reply ReplyStopWord (srv_AddStopWord sl_Add sl_Size True c req (app_stopWords st))"
| "serve_rpc st c (RpcRemoveStopWord req) =
     with_reply ReplyStopWord (srv_RemoveStopWord sl_Remove sl_Size True c req (app_stopWords st))"
| "serve_rpc st c RpcListStopWords =
     (case srv_ListStopWords sl_List sl_Size True c (app_stopWords st) of
        (resp, ms) \<Rightarrow> (map_sum id ReplyWords resp, app_stopWords st, ms))"
| "serve_rpc st c (RpcHealthCheck now) = (map_sum id ReplyHealth (srv_HealthCheck c now), app_stopWords st, [])"

record service =
  svc_state :: app_state
  svc_inflight :: "kafka_event option"

datatype service_op =
    EventArrives kafka_event
  | EventCounted ctx ctx gotime
  | RebuildTick ctx gotime duration
  | Rpc string duration ctx rpc

inductive service_step :: "service \<Rightarrow> service_op \<Rightarrow> metric_call list \<Rightarrow> service \<Rightarrow> bool" where
  event_stopped: "svc_inflight s = None \<Longrightarrow> sl_Contains (app_stopWords (svc_state s)) (ke_Query event) \<Longrightarrow>
    service_step s (EventArrives event) [ObserveEvent ''stopped''] s"
| event_passed: "svc_inflight s = None \<Longrightarrow> \<not> sl_Contains (app_stopWords (svc_state s)) (ke_Query event) \<Longrightarrow>
    service_step s (EventArrives event) [] (s\<lparr>svc_inflight := Some event\<rparr>)"
| event_counted: "svc_inflight s = Some event \<Longrightarrow>
    handle_count (svc_state s) c1 c2 now event = (r, st, ms) \<Longrightarrow>
    service_step s (EventCounted c1 c2 now) ms (s\<lparr>svc_state := st, svc_inflight := None\<rparr>)"
| rebuild: "agg_RebuildTop (app_agg (svc_state s)) c now elapsed = (r, agg, ms) \<Longrightarrow>
    service_step s (RebuildTick c now elapsed) ms (s\<lparr>svc_state := (svc_state s)\<lparr>app_agg := agg\<rparr>\<rparr>)"
| rpc_served: "unaryMetricsInterceptor fullMethod elapsed (serve_rpc (svc_state s) c req) = (resp, m, ms) \<Longrightarrow>
    service_step s (Rpc fullMethod elapsed c req) ms (s\<lparr>svc_state := (svc_state s)\<lparr>app_stopWords := m\<rparr>\<rparr>)"

inductive service_run :: "service \<Rightarrow> service_op list \<Rightarrow> service \<Rightarrow> bool" where
  run_start: "service_run s [] s"
| run_step: "service_run s ops s' \<Longrightarrow> service_step s' op ms s'' \<Longrightarrow> service_run s (ops @ [op]) s''"

inductive_cases service_stepE: "service_step s op ms s'"

definition initial_service :: "app \<Rightarrow> service" where
  "initial_service app = \<lparr>svc_state = app_init app, svc_inflight = None\<rparr>"

text \<open>An event that arrives and is counted at once is what the handler does.\<close>

lemma service_step_handler:
  assumes "handleSearchEvent (svc_state s) c1 c2 now event = (r, st, ms)" and "svc_inflight s = None"
    and "\<not> sl_Contains (app_stopWords (svc_state s)) (ke_Query event)"
  shows "\<exists>s1. service_step s (EventArrives event) [] s1 \<and>
    service_step s1 (EventCounted c1 c2 now) ms (s\<lparr>svc_state := st\<rparr>)"
proof -
  let ?s1 = "s\<lparr>svc_inflight := Some event\<rparr>"
  have "service_step s (EventArrives event) [] ?s1" using assms(2,3) by (rule event_passed)
  moreover have "handle_count (svc_state ?s1) c1 c2 now event = (r, st, ms)"
    using assms(1,3) by (simp add: handleSearchEvent_split)
  then have "service_step ?s1 (EventCounted c1 c2 now) ms (?s1\<lparr>svc_state := st, svc_inflight := None\<rparr>)"
    by (intro event_counted) simp_all
  moreover have "?s1\<lparr>svc_state := st, svc_inflight := None\<rparr> = s\<lparr>svc_state := st\<rparr>"
    using assms(2) by (cases s) simp
  ultimately show ?thesis by auto
qed

section \<open>A query that is never counted\<close>

text \<open>\<open>absent q a\<close>: no counter, no bucket and no cached item of the aggregator has the query \<open>q\<close>.\<close>

definition absent :: "string \<Rightarrow> aggregator \<Rightarrow> bool" where
  "absent q a \<longleftrightarrow> q \<notin> gm_keys (agg_counters a) \<and> (\<forall>b\<in>set (agg_buckets a). q \<notin> gm_keys (counts_of b)) \<and>
     q \<notin> Query ` set (topCache a)"

lemma subtractCounts_keys: "gm_keys (subtractCounts m cs) \<subseteq> gm_keys cs \<union> gm_keys m"
  by (induction m cs rule: subtractCounts.induct) (auto simp: gomap_simps gm_keys_Cons Let_def)

lemma expireLoop_keys:
  assumes "q \<notin> gm_keys cs" and "\<forall>b\<in>set bs. q \<notin> gm_keys (counts_of b)"
    and "expireLoop co bs cs = (bs', cs', ex)"
  shows "q \<notin> gm_keys cs' \<and> (\<forall>b\<in>set bs'. q \<notin> gm_keys (counts_of b))"
  using assms
proof (induction co bs cs arbitrary: bs' cs' ex rule: expireLoop.induct)
  case (2 co b bs cs)
  have "q \<notin> gm_keys (fst (clearBucketLocked cs b))" "q \<notin> gm_keys (counts_of (snd (clearBucketLocked cs b)))"
    using 2 subtractCounts_keys [of "counts_of b" cs]
    by (auto simp: clearBucketLocked_def counts_of_def split: option.splits)
  then show ?case using 2 by (fastforce split: if_splits prod.splits)
qed simp

lemma expireLoop_length: "length (fst (expireLoop co bs cs)) = length bs"
  by (induction co bs cs rule: expireLoop.induct) (auto split: prod.splits)

lemma expireLocked_shape: "shape_ok a \<Longrightarrow> shape_ok (fst (expireLocked a now))"
  using expireLoop_length [of "cutoffSecond a now" "agg_buckets a" "agg_counters a"]
  by (auto simp: shape_ok_def expireLocked_def split: prod.splits)

lemma expireLocked_absent: "absent q a \<Longrightarrow> absent q (fst (expireLocked a now))"
  using expireLoop_keys [of q "agg_counters a" "agg_buckets a" "cutoffSecond a now"]
  by (auto simp: absent_def expireLocked_def split: prod.splits)

lemma addLocked_absent:
  assumes "absent q a" and "q \<noteq> q'" and "shape_ok a"
  shows "absent q (addLocked a now s q') \<and> shape_ok (addLocked a now s q')"
proof -
  let ?a = "fst (expireLocked a now)"
  let ?i = "nat (bucketIndex s (bucketCount ?a))"
  have a: "absent q ?a" "shape_ok ?a"
    using assms expireLocked_absent expireLocked_shape by blast+
  have "?i < length (agg_buckets ?a)" using bucketIndex_bounds [OF a(2)] .
  then have b: "q \<notin> gm_keys (counts_of (agg_buckets ?a ! ?i))" using a by (simp add: absent_def)
  then have "q \<notin> gm_keys (kept_counters (agg_counters ?a) (agg_buckets ?a ! ?i) s)"
    "q \<notin> gm_keys (found_counts (agg_buckets ?a ! ?i) s)"
    using a(1) subtractCounts_keys [of "counts_of (agg_buckets ?a ! ?i)" "agg_counters ?a"]
    by (auto simp: kept_counters_def found_counts_def absent_def)
  then show ?thesis
    using a assms(2) unfolding addLocked_eq Let_def
    by (auto simp: absent_def shape_ok_def bump_def gomap_simps counts_of_def
        dest!: set_update_subset_insert [THEN subsetD])
qed

lemma top_spec_keys: "x \<in> set (top_spec m n) \<Longrightarrow> Query x \<in> gm_keys m"
  by (auto simp: top_spec_def positive_items_def gm_keys_def rev_image_eqI dest!: in_set_takeD)

lemma agg_RebuildTop_absent:
  assumes "absent q a" and "shape_ok a"
  shows "absent q (fst (snd (agg_RebuildTop a c now elapsed))) \<and>
    shape_ok (fst (snd (agg_RebuildTop a c now elapsed)))"
proof (cases c)
  case None
  obtain a1 ex where e: "expireLocked a now = (a1, ex)" by (cases "expireLocked a now")
  then have "absent q a1" "shape_ok a1"
    using expireLocked_absent [OF assms(1), of now] expireLocked_shape [OF assms(2), of now] by simp_all
  then show ?thesis
    using None top_spec_keys
    by (auto simp: agg_RebuildTop_def Let_def absent_def shape_ok_def buildTop_eq e)
qed (use assms in \<open>simp add: agg_RebuildTop_def\<close>)

lemma GetTop_absent:
  assumes "absent q a" and "srv_GetTop (agg_Snapshot a) c req = Inr resp"
  shows "q \<notin> fst ` set (gr_Items resp)"
proof -
  have conv: "fst ` set (convertItems items) \<subseteq> Query ` set items" for items
    by (induction items) auto
  from assms(2) obtain limit sn where sn: "agg_Snapshot a c limit = Inr sn"
    and r: "gr_Items resp = convertItems (Items sn)"
    by (auto simp: srv_GetTop_def split: option.splits if_splits sum.splits)
  from sn have "set (Items sn) \<subseteq> set (topCache a)"
    by (auto simp: agg_Snapshot_def agg_GetTop_def Let_def split: option.splits if_splits dest: in_set_takeD)
  then show ?thesis using conv [of "Items sn"] assms(1) unfolding r absent_def by blast
qed

section \<open>A listed word stays hidden\<close>

text \<open>
  \<open>hides q s\<close>: \<open>q\<close> is on the stop list, is not counted anywhere, and the event in flight, if any, would not be
  counted under it. \<open>keeps q op\<close>: the operation does not take \<open>q\<close> off the list, and the query of an arriving
  event has no white space that is a control character.
\<close>

definition plain_query :: "string \<Rightarrow> bool" where
  "plain_query raw \<longleftrightarrow> (\<forall>r\<in>set (runes raw). \<not> (IsSpace r \<and> IsControl r))"

definition hides :: "string \<Rightarrow> service \<Rightarrow> bool" where
  "hides q s \<longleftrightarrow> sl_inv (app_stopWords (svc_state s)) \<and> q \<in> sl_set (app_stopWords (svc_state s)) \<and>
     shape_ok (app_agg (svc_state s)) \<and> absent q (app_agg (svc_state s)) \<and>
     (\<forall>event n. svc_inflight s = Some event \<longrightarrow> NormalizeQuery (ke_Query event) n \<noteq> Inr q)"

fun keeps :: "string \<Rightarrow> service_op \<Rightarrow> bool" where
  "keeps q (EventArrives event) \<longleftrightarrow> plain_query (ke_Query event)"
| "keeps q (Rpc fullMethod elapsed c (RpcRemoveStopWord req)) \<longleftrightarrow> validateStopWordRequest req \<noteq> Inr q"
| "keeps q _ \<longleftrightarrow> True"

lemma passed_not_listed:
  assumes "sl_inv m" and "\<not> sl_Contains m raw" and "plain_query raw" and "NormalizeQuery raw n = Inr q"
  shows "q \<notin> sl_set m"
proof -
  have "sl_normalize raw = q"
    using NormalizeQuery_InrD(1) [OF assms(4)] canonical_stop_runes assms(3)
    by (simp add: sl_normalize_eq plain_query_def)
  then show ?thesis using assms(1,2) by (simp add: sl.contains_words)
qed

lemma handle_count_cases:
  obtains (same) "fst (snd (handle_count st c1 c2 now event)) = st"
  | (added) query n where "NormalizeQuery (ke_Query event) n = Inr query"
      "fst (snd (handle_count st c1 c2 now event)) =
        st\<lparr>app_agg := addLocked (app_agg st) now (bucketSecond (app_agg st) (ke_Timestamp event)) query\<rparr>"
proof -
  let ?agg' = "fst (snd (agg_Add (app_agg st) c2 now (ToAggregatorEvent event)))"
  have "fst (snd (handle_count st c1 c2 now event)) \<in> {st, st\<lparr>app_agg := ?agg'\<rparr>}"
    by (auto simp: handle_count_def split: prod.splits option.splits)
  then consider "fst (snd (handle_count st c1 c2 now event)) = st"
    | "fst (snd (handle_count st c1 c2 now event)) = st\<lparr>app_agg := ?agg'\<rparr>" by blast
  then show ?thesis
  proof cases
    case 2
    show ?thesis
    proof (cases rule: agg_Add_cases [of "app_agg st" c2 now "ToAggregatorEvent event"])
      case same
      then show ?thesis using 2 that(1) by simp
    next
      case (added query)
      then have "NormalizeQuery (ke_Query event) (MaxQueryRunes (agg_cfg (app_agg st))) = Inr query"
        by (auto simp: validateAndNormalize_def ToAggregatorEvent_def Let_def split: if_splits sum.splits)
      then show ?thesis using 2 added(3) that(2) by (simp add: ToAggregatorEvent_def)
    qed
  qed (rule that(1))
qed

lemma serve_rpc_words:
  assumes "serve_rpc st c req = (resp, m, ms)" and "sl_inv (app_stopWords st)"
    and "q \<in> sl_set (app_stopWords st)" and "\<And>w. req = RpcRemoveStopWord w \<Longrightarrow> validateStopWordRequest w \<noteq> Inr q"
  shows "sl_inv m \<and> q \<in> sl_set m"
proof (cases req)
  case (RpcAddStopWord w)
  then show ?thesis
    using assms(1-3) sl.add_inv sl.add_words
    by (auto simp: srv_AddStopWord_def Let_def split: option.splits sum.splits prod.splits)
      (metis UnCI snd_conv)+
next
  case (RpcRemoveStopWord w)
  have "sl_normalize v = v" if "validateStopWordRequest w = Inr v" for v
    using sl_admin.validate_norm [OF that] by simp
  then show ?thesis
    using RpcRemoveStopWord assms sl.remove_inv sl.remove_words
    by (auto simp: srv_RemoveStopWord_def Let_def split: option.splits sum.splits prod.splits)
      (metis Diff_iff singletonD snd_conv)+
qed (use assms in \<open>auto split: prod.splits\<close>)

lemma service_step_hides:
  assumes "service_step s op ms s'" and "hides q s" and "keeps q op"
  shows "hides q s'"
  using assms
proof cases
  case (event_passed event)
  then show ?thesis using assms(2,3) passed_not_listed by (auto simp: hides_def)
next
  case (event_counted event c1 c2 now r st)
  show ?thesis
  proof (cases rule: handle_count_cases [of "svc_state s" c1 c2 now event])
    case same
    then show ?thesis using event_counted assms(2) by (simp add: hides_def)
  next
    case (added query n)
    then have "q \<noteq> query" using event_counted(3) assms(2) by (auto simp: hides_def)
    then show ?thesis using event_counted added assms(2) addLocked_absent by (auto simp: hides_def)
  qed
next
  case (rebuild c now elapsed r agg)
  then show ?thesis
    using assms(2) agg_RebuildTop_absent [of q "app_agg (svc_state s)" c now elapsed] by (simp add: hides_def)
next
  case (rpc_served fullMethod elapsed c req resp m)
  then obtain r ms' where r: "serve_rpc (svc_state s) c req = (r, m, ms')"
    by (auto simp: unaryMetricsInterceptor_def split: prod.splits)
  have "sl_inv m \<and> q \<in> sl_set m"
    using assms(2,3) rpc_served(1) by (intro serve_rpc_words [OF r]) (auto simp: hides_def)
  then show ?thesis using rpc_served assms(2) by (simp add: hides_def)
qed simp

lemma service_run_hides:
  "service_run s ops s' \<Longrightarrow> hides q s \<Longrightarrow> list_all (keeps q) ops \<Longrightarrow> hides q s'"
  by (induction rule: service_run.induct) (auto intro: service_step_hides)

lemma initial_hides:
  assumes "app_start lib loaded now = Inr app" and "q \<in> set (sl_List (app_stopWords (app_init app)))"
  shows "hides q (initial_service app)"
proof -
  from assms(1) obtain cfg0 ms words where new: "agg_New cfg0 now = Inr (app_agg (app_init app), ms)"
    and w: "app_stopWords (app_init app) = sl_NewManager words"
    by (auto simp: app_start_def Let_def split: sum.splits option.splits prod.splits)
  have inv: "sl_inv (app_stopWords (app_init app))" using sl_NewManager_ok(1) w by simp
  then have "q \<in> sl_set (app_stopWords (app_init app))"
    using assms(2) by (simp add: sl.list_sorted sl.words_finite)
  moreover have "shape_ok (app_agg (app_init app))"
    using agg_New_inv [OF new] by (simp add: agg_inv_def base_inv_def)
  moreover have "absent q (app_agg (app_init app))"
    using agg_New_cases(4-6) [OF new] by (simp add: absent_def counts_of_def)
  ultimately show ?thesis using inv by (simp add: hides_def initial_service_def)
qed

section \<open>The series of the metrics\<close>

text \<open>
  An increment on a labelled counter is primed if \<open>primeLabels\<close> has created its series; the series of the gRPC
  requests are created by the requests.
\<close>

fun op_primed :: "metrics \<Rightarrow> prom_op \<Rightarrow> bool" where
  "op_primed m (PromInc c ls) \<longleftrightarrow> ls = [] \<or> c = GRPCRequests m \<or> PromWith c ls \<in> set (primeLabels m)"
| "op_primed m _ \<longleftrightarrow> True"

definition series_primed :: "metrics \<Rightarrow> metric_call \<Rightarrow> bool" where
  "series_primed m call \<longleftrightarrow> list_all (op_primed m) (metric_ops m call)"

lemma series_primed_simps [simp]:
  "series_primed m (ObserveKafkaProcessingDuration d)" "series_primed m (SetKafkaLastMessageTimestamp t)"
  "series_primed m IncKafkaDecodeError" "series_primed m IncKafkaCommitError" "series_primed m IncKafkaReadError"
  "series_primed m (SetUniqueQueries n)" "series_primed m (SetTopCacheSize n)" "series_primed m (SetWindowBuckets n)"
  "series_primed m (SetCurrentWindowSeconds n)" "series_primed m (SetStopListSize n)"
  "series_primed m (SetAntiSpamActiveKeys n)" "series_primed m (ObserveGRPCRequest meth code d)"
  by (simp_all add: series_primed_def)

lemma series_primed_labels:
  "status \<in> {''received'', ''processed'', ''invalid'', ''failed''} \<Longrightarrow> series_primed m (ObserveKafkaMessage status)"
  "status \<in> {''accepted'', ''stopped'', ''rate_limited'', ''expired'', ''invalid''} \<Longrightarrow>
    series_primed m (ObserveEvent status)"
  "status \<in> {''success'', ''failed''} \<Longrightarrow> series_primed m (ObserveTopRebuild status d)"
  "operation \<in> {''add'', ''remove'', ''list''} \<Longrightarrow> status \<in> {''success'', ''failed''} \<Longrightarrow>
    series_primed m (ObserveStopListOperation operation status)"
  "result \<in> {''allowed'', ''blocked''} \<Longrightarrow> series_primed m (ObserveAntiSpamCheck result)"
  by (auto simp: series_primed_def primeLabels_def)

lemmas series_simps = series_primed_labels emit_def

lemma agg_calls_primed:
  "list_all (series_primed m) (snd (snd (agg_Add a c now event)))"
  "list_all (series_primed m) (snd (snd (agg_RebuildTop a c now elapsed)))"
  "agg_New cfg now = Inr (a, ms) \<Longrightarrow> list_all (series_primed m) ms"
  by (auto simp: agg_Add_def agg_RebuildTop_def agg_New_def setWindowMetrics_def observeEvent_def
      setCounterMetricsLocked_def series_simps Let_def split: option.splits sum.splits prod.splits if_splits)

lemma handle_count_primed: "list_all (series_primed m) (snd (snd (handle_count st c1 c2 now event)))"
  using agg_calls_primed(1) [of m "app_agg st" c2 now "ToAggregatorEvent event"]
  by (auto simp: handle_count_def spam_Allow_def observeCheck_def series_simps
      split: option.splits prod.splits)

lemma serve_rpc_primed: "list_all (series_primed m) (snd (snd (serve_rpc st c req)))"
  by (cases req) (auto simp: srv_AddStopWord_def srv_RemoveStopWord_def srv_ListStopWords_def
      observeStopListOperation_def setStopListSize_def series_simps Let_def
      split: option.splits sum.splits prod.splits)

lemma service_step_primed: "service_step s op ms s' \<Longrightarrow> list_all (series_primed m) ms"
proof (induction rule: service_step.induct)
  case (event_counted s event c1 c2 now r st ms)
  then show ?case using handle_count_primed [of m "svc_state s" c1 c2 now event] by simp
next
  case (rebuild s c now elapsed r agg ms)
  then show ?case using agg_calls_primed(2) [of m "app_agg (svc_state s)" c now elapsed] by simp
next
  case (rpc_served fullMethod elapsed s c req resp m' ms)
  then show ?case
    using serve_rpc_primed [of m "svc_state s" c req]
    by (auto simp: unaryMetricsInterceptor_def split: prod.splits)
qed (simp_all add: series_simps)

lemma app_start_primed:
  "app_start lib loaded now = Inr app \<Longrightarrow> list_all (series_primed m) (app_calls app)"
  using agg_calls_primed(3)
  by (auto simp: app_start_def NewLimiter_def setActiveKeys_def series_simps Let_def
      split: sum.splits option.splits prod.splits)

text \<open>The metric calls among the actions of the consumer.\<close>

fun action_primed :: "metrics \<Rightarrow> kafka_action \<Rightarrow> bool" where
  "action_primed m (ActMetric call) \<longleftrightarrow> series_primed m call"
| "action_primed m _ \<longleftrightarrow> True"

lemma acts_primed [simp]:
  "list_all (action_primed m) (acts c calls) \<longleftrightarrow> (con_HasMetrics c \<longrightarrow> list_all (series_primed m) calls)"
  by (auto simp: acts_def emit_def list_all_iff)

lemma commitLoop_primed: "list_all (action_primed m) (snd (snd (commitLoop env c message attempt lastErr w)))"
proof (induction env c message attempt lastErr w rule: commitLoop.induct)
  case (1 env c message attempt lastErr w)
  then show ?case
    by (subst commitLoop.simps)
      (auto simp: observeKafkaMessage_def incKafkaCommitError_def series_simps Let_def
        split: prod.splits option.splits)
qed

lemma processMessage_primed: "list_all (action_primed m) (snd (snd (processMessage env c message w)))"
  by (auto simp: processMessage_def observeKafkaMessage_def incKafkaDecodeError_def observeDuration_def
      series_simps Let_def split: sum.splits prod.splits option.splits)

lemma runIteration_primed: "list_all (action_primed m) (snd (snd (runIteration env c w)))"
proof -
  have p: "list_all (action_primed m) as" if "processMessage env c message w' = (r, w'', as)" for message w' r w'' as
    using processMessage_primed [of m env c message w'] that by simp
  have k: "list_all (action_primed m) as" if "commitWithRetry env c message w' = (r, w'', as)" for message w' r w'' as
    using commitLoop_primed [of m env c message 1 None w'] that by (simp add: commitWithRetry_def)
  show ?thesis
    by (auto simp: runIteration_def observeKafkaMessage_def incKafkaReadError_def series_simps Let_def
        split: sum.splits prod.splits option.splits dest: p k)
qed

lemma consumer_Run_primed: "list_all (action_primed m) (snd (snd (consumer_Run fuel env c w)))"
proof (induction fuel arbitrary: w)
  case (Suc fuel)
  show ?case
    using runIteration_primed [of m env c w] Suc
    by (auto split: prod.splits outcome.splits) (metis snd_conv)
qed simp

end
