(* ===== verification/Service_Trace.thy ===== *)
theory Service_Trace
  imports Service
begin

text \<open>
  What the steps of the service ask of the aggregator. \<open>service_trace\<close> is \<open>service_run\<close> with the operations of
  the aggregator that the steps perform, in order; the properties of the aggregator over sequences of its
  operations become properties of the running service.
\<close>

fun agg_effect :: "service \<Rightarrow> service_op \<Rightarrow> agg_op list" where
  "agg_effect s (EventCounted c1 c2 now) =
     (case svc_inflight s of
        Some event \<Rightarrow> if c1 = None then [OpAdd c2 now (ToAggregatorEvent event)] else []
      | None \<Rightarrow> [])"
| "agg_effect s (RebuildTick c now elapsed) = [OpRebuild c now elapsed]"
| "agg_effect s _ = []"

inductive service_trace :: "service \<Rightarrow> service_op list \<Rightarrow> agg_op list \<Rightarrow> service \<Rightarrow> bool" where
  trace_start: "service_trace s [] [] s"
| trace_step: "service_trace s ops aops s' \<Longrightarrow> service_step s' op ms s'' \<Longrightarrow>
    service_trace s (ops @ [op]) (aops @ agg_effect s' op) s''"

lemma service_trace_run: "service_run s ops s' \<longleftrightarrow> (\<exists>aops. service_trace s ops aops s')"
proof
  assume "service_run s ops s'"
  then show "\<exists>aops. service_trace s ops aops s'"
    by (induction rule: service_run.induct) (auto intro: trace_start trace_step)
next
  assume "\<exists>aops. service_trace s ops aops s'"
  then obtain aops where "service_trace s ops aops s'" ..
  then show "service_run s ops s'"
    by (induction rule: service_trace.induct) (auto intro: run_start run_step)
qed

lemma service_step_agg:
  "service_step s op ms s' \<Longrightarrow> app_agg (svc_state s') = foldl agg_step (app_agg (svc_state s)) (agg_effect s op)"
proof (induction rule: service_step.induct)
  case (event_counted s event c1 c2 now r st ms)
  then show ?case
    by (auto simp: handle_count_def spam_Allow_def split: option.splits prod.splits)
qed auto

lemma service_trace_agg:
  "service_trace s ops aops s' \<Longrightarrow>
     app_agg (svc_state s') = foldl agg_step (app_agg (svc_state s)) aops \<and> length aops \<le> length ops"
proof (induction rule: service_trace.induct)
  case (trace_step s ops aops s' op ms s'')
  have "length (agg_effect s' op) \<le> 1" by (cases "(s', op)" rule: agg_effect.cases) (simp_all split: option.splits)
  then show ?case using trace_step service_step_agg [OF trace_step(2)] by simp
qed simp

text \<open>An event that is added has arrived before and has passed the stop list.\<close>

lemma service_trace_arrived:
  "service_trace s ops aops s' \<Longrightarrow> svc_inflight s = None \<Longrightarrow>
     (\<forall>event. svc_inflight s' = Some event \<longrightarrow> EventArrives event \<in> set ops) \<and>
     (\<forall>c now e. OpAdd c now e \<in> set aops \<longrightarrow> (\<exists>event. EventArrives event \<in> set ops \<and> e = ToAggregatorEvent event))"
proof (induction rule: service_trace.induct)
  case (trace_step s ops aops s' op ms s'')
  then have IH: "\<forall>event. svc_inflight s' = Some event \<longrightarrow> EventArrives event \<in> set ops"
    "\<forall>c now e. OpAdd c now e \<in> set aops \<longrightarrow> (\<exists>event. EventArrives event \<in> set ops \<and> e = ToAggregatorEvent event)"
    by blast+
  from trace_step(2) have "\<forall>event. svc_inflight s'' = Some event \<longrightarrow>
      svc_inflight s' = Some event \<or> op = EventArrives event"
    by cases auto
  moreover have "\<exists>event. svc_inflight s' = Some event \<and> e = ToAggregatorEvent event"
    if "OpAdd c now e \<in> set (agg_effect s' op)" for c now e
    using that by (cases op; cases "svc_inflight s'") (auto split: if_splits)
  ultimately show ?case using IH by fastforce
qed simp

lemma app_start_agg:
  assumes "app_start lib loaded now = Inr app"
  obtains cfg ms where "agg_New (toAggConfig cfg) now = Inr (app_agg (app_init app), ms)"
  using assms by (auto simp: app_start_def Let_def split: sum.splits option.splits prod.splits)

text \<open>The aggregator of a service that has started keeps its invariant.\<close>

lemma service_agg_inv:
  assumes "app_start lib loaded now = Inr app" and "service_trace (initial_service app) ops aops s"
    and "int (length ops) \<le> maxInt64"
  shows "agg_inv (int (length aops)) (app_agg (svc_state s))"
proof -
  obtain cfg ms where new: "agg_New (toAggConfig cfg) now = Inr (app_agg (app_init app), ms)"
    using assms(1) by (rule app_start_agg)
  have t: "app_agg (svc_state s) = foldl agg_step (app_agg (app_init app)) aops" "length aops \<le> length ops"
    using service_trace_agg [OF assms(2)] by (simp_all add: initial_service_def)
  then show ?thesis
    using agg_run_window(1) [OF new, of aops] assms(3) by (simp add: sim_inv_def counted_inv_def)
qed

text \<open>What \<open>GetTop\<close> of the gRPC server answers, in terms of the aggregator's \<open>GetTop\<close>.\<close>

definition requested :: "32 word option \<Rightarrow> int" where
  "requested req = (case req of None \<Rightarrow> 0 | Some l \<Rightarrow> uint l)"

definition shown :: "get_top_response \<Rightarrow> top_item list" where
  "shown resp = map (\<lambda>(q, n). TopItem q (uint n)) (gr_Items resp)"

lemma served_items:
  assumes "agg_inv n a" and "agg_GetTop a None (requested req) = Inr (items, t)"
  shows "\<exists>resp. srv_GetTop (agg_Snapshot a) None req = Inr resp \<and> shown resp = items \<and> gr_GeneratedAt resp = t"
proof -
  from assms(1) have "\<exists>n. agg_inv n a" by blast
  then obtain sn resp where "agg_Snapshot a None (requested req) = Inr sn"
    "srv_GetTop (agg_Snapshot a) None req = Inr resp" "shown resp = Items sn" "gr_GeneratedAt resp = GeneratedAt sn"
    unfolding requested_def shown_def by (rule agg_top.GetTop_live)
  then show ?thesis using assms(2) by (auto simp: agg_Snapshot_def)
qed

lemma service_exact:
  assumes start: "app_start lib loaded now0 = Inr app"
    and tr: "service_trace (initial_service app) ops aops s"
    and rebuild: "service_step s (RebuildTick None now elapsed) ms s'"
    and len: "int (length ops) < maxInt64"
    and late: "bucketCount (app_agg (app_init app)) \<le> slot_second (agg_cfg (app_agg (app_init app))) now0"
    and t: "timely (agg_cfg (app_agg (app_init app))) (bucketCount (app_agg (app_init app))) now0
      (aops @ [OpRebuild None now elapsed])"
  defines "a \<equiv> app_agg (app_init app)"
  defines "counted \<equiv> filter (\<lambda>x. slot_second (agg_cfg a) now - bucketCount a < fst x) (accepted (agg_cfg a) aops)"
  shows "\<exists>resp. srv_GetTop (agg_Snapshot (app_agg (svc_state s'))) None req = Inr resp \<and>
    shown resp = top_spec (count_queries (map snd counted)) (normalizeLimit a (requested req))"
proof -
  obtain cfg ms0 where new: "agg_New (toAggConfig cfg) now0 = Inr (a, ms0)"
    using start unfolding a_def by (rule app_start_agg)
  let ?tick = "RebuildTick None now elapsed"
  have tr': "service_trace (initial_service app) (ops @ [?tick]) (aops @ [OpRebuild None now elapsed]) s'"
    using trace_step [OF tr rebuild] by simp
  have s': "app_agg (svc_state s') = foldl agg_step a (aops @ [OpRebuild None now elapsed])"
    using service_trace_agg [OF tr'] by (simp add: a_def initial_service_def)
  have "length aops \<le> length ops" using service_trace_agg [OF tr] by simp
  then have "agg_GetTop (app_agg (svc_state s')) None (requested req) =
      Inr (top_spec (count_queries (map snd counted)) (normalizeLimit a (requested req)),
        topGeneratedAt (app_agg (svc_state s')))"
    unfolding s' counted_def using len late t unfolding a_def [symmetric]
    by (intro agg_exact [OF new]) simp_all
  moreover have "agg_inv (int (length (aops @ [OpRebuild None now elapsed]))) (app_agg (svc_state s'))"
    using service_agg_inv [OF start tr'] len by simp
  ultimately show ?thesis using served_items by blast
qed

end
