(* ===== verification/Lifecycle.thy ===== *)
theory Lifecycle
  imports Service_Trace
begin

text \<open>
  How the service runs and ends: the four goroutines that \<open>run\<close> of \<open>cmd/app/main.go\<close> starts, the goroutines
  with which the two servers wait for the context, and the group that joins them. \<open>errgroup.Group\<close> is an
  argument. A step here is an iteration of a loop or a call that returns; how the steps of one iteration
  interleave with the other goroutines is the theory \<open>Service\<close>. Requests are left out, since they do not change
  what the goroutines return.
\<close>

section \<open>The group\<close>

text \<open>
  A group has a derived context; \<open>eg_Signal\<close> is a signal that ends the parent context, \<open>eg_Returned r\<close> the
  return of a function that was passed to \<open>Go\<close>, and \<open>eg_Wait\<close> what \<open>Wait\<close> returns once all functions have
  returned.
\<close>

record 'g errgroup =
  eg_Context :: "'g \<Rightarrow> ctx"
  eg_Signal :: "'g \<Rightarrow> 'g"
  eg_Returned :: "go_error option \<Rightarrow> 'g \<Rightarrow> 'g"
  eg_Wait :: "'g \<Rightarrow> go_error option"

text \<open>
  As documented: the derived context ends with the parent, or the first time a function returns an error, and
  then stays as it is; a function that returns nil has no effect on it; \<open>Wait\<close> returns the first error.
\<close>

definition errgroup_ok :: "'g errgroup \<Rightarrow> bool" where
  "errgroup_ok G \<longleftrightarrow>
     (\<forall>g e. eg_Context G g = Some e \<longrightarrow> isContextError e) \<and>
     (\<forall>g. eg_Context G (eg_Signal G g) \<noteq> None \<and> eg_Wait G (eg_Signal G g) = eg_Wait G g) \<and>
     (\<forall>g. eg_Context G (eg_Returned G None g) = eg_Context G g \<and>
          eg_Wait G (eg_Returned G None g) = eg_Wait G g) \<and>
     (\<forall>g e. eg_Context G (eg_Returned G (Some e) g) \<noteq> None \<and>
          eg_Wait G (eg_Returned G (Some e) g) = (case eg_Wait G g of None \<Rightarrow> Some e | Some e0 \<Rightarrow> Some e0))"

section \<open>Steps\<close>

datatype phase = Starting | Running | Returned "go_error option"

record ('g, 'x) life =
  lf_group :: 'g
  lf_world :: "app_state \<times> 'x"
  lf_agg :: phase
  lf_consumer :: phase
  lf_grpc :: phase
  lf_grpcStopping :: bool
  lf_http :: phase
  lf_httpStopping :: bool

text \<open>The Kafka client and the clock, as they appear with the given context, and the errors of the two servers.\<close>

record ('g, 'x) life_env =
  le_group :: "'g errgroup"
  le_kafka :: "ctx \<Rightarrow> (app_state \<times> 'x) kafka_env"
  le_ErrServerStopped :: go_error
  le_ErrServerClosed :: go_error

abbreviation lf_ctx :: "('g, 'x) life_env \<Rightarrow> ('g, 'x) life \<Rightarrow> ctx" where
  "lf_ctx E s \<equiv> eg_Context (le_group E) (lf_group s)"

abbreviation lf_return :: "('g, 'x) life_env \<Rightarrow> go_error option \<Rightarrow> ('g, 'x) life \<Rightarrow> 'g" where
  "lf_return E r s \<equiv> eg_Returned (le_group E) r (lf_group s)"

datatype life_op =
    LifeSignal
  | LifeAgg run_event
  | LifeConsumer
  | LifeGrpcListen "go_error option"
  | LifeGrpcStop
  | LifeGrpcServe "go_error option"
  | LifeHttpStart
  | LifeHttpStop
  | LifeHttpServe "go_error option"

text \<open>The select statement of \<open>agg.Run\<close> can only receive from a context that is done; \<open>RebuildTop\<close> polls it.\<close>

fun receives :: "ctx \<Rightarrow> run_event \<Rightarrow> bool" where
  "receives c RunDone \<longleftrightarrow> c \<noteq> None"
| "receives c (RunTick c' now elapsed) \<longleftrightarrow> c' = c"

inductive life_step ::
  "('g, 'x) life_env \<Rightarrow> app \<Rightarrow> ('g, 'x) life \<Rightarrow> life_op \<Rightarrow> ('g, 'x) life \<Rightarrow> bool" for E app where
  signal: "life_step E app s LifeSignal (s\<lparr>lf_group := eg_Signal (le_group E) (lf_group s)\<rparr>)"
| agg_continues: "lf_agg s = Running \<Longrightarrow> receives (lf_ctx E s) ev \<Longrightarrow> lf_world s = (st, x) \<Longrightarrow>
    agg_Run (app_agg st) [ev] = (None, agg, ms) \<Longrightarrow>
    life_step E app s (LifeAgg ev) (s\<lparr>lf_world := (st\<lparr>app_agg := agg\<rparr>, x)\<rparr>)"
| agg_returns: "lf_agg s = Running \<Longrightarrow> receives (lf_ctx E s) ev \<Longrightarrow> lf_world s = (st, x) \<Longrightarrow>
    agg_Run (app_agg st) [ev] = (Some r, agg, ms) \<Longrightarrow>
    life_step E app s (LifeAgg ev)
      (s\<lparr>lf_world := (st\<lparr>app_agg := agg\<rparr>, x), lf_agg := Returned r, lf_group := lf_return E r s\<rparr>)"
| consumer_continues: "lf_consumer s = Running \<Longrightarrow>
    runIteration (le_kafka E (lf_ctx E s)) (app_consumer app) (lf_world s) = (Continue, w, as) \<Longrightarrow>
    life_step E app s LifeConsumer (s\<lparr>lf_world := w\<rparr>)"
| consumer_returns: "lf_consumer s = Running \<Longrightarrow>
    runIteration (le_kafka E (lf_ctx E s)) (app_consumer app) (lf_world s) = (Return r, w, as) \<Longrightarrow>
    life_step E app s LifeConsumer (s\<lparr>lf_world := w, lf_consumer := Returned r, lf_group := lf_return E r s\<rparr>)"
| grpc_listening: "lf_grpc s = Starting \<Longrightarrow>
    life_step E app s (LifeGrpcListen None) (s\<lparr>lf_grpc := Running\<rparr>)"
| grpc_listen_failed: "lf_grpc s = Starting \<Longrightarrow>
    r = GRPCServer_Run (le_ErrServerStopped E) (Some err) None \<Longrightarrow>
    life_step E app s (LifeGrpcListen (Some err)) (s\<lparr>lf_grpc := Returned r, lf_group := lf_return E r s\<rparr>)"
| grpc_stopping: "lf_grpc s = Running \<Longrightarrow> lf_ctx E s \<noteq> None \<Longrightarrow> \<not> lf_grpcStopping s \<Longrightarrow>
    life_step E app s LifeGrpcStop (s\<lparr>lf_grpcStopping := True\<rparr>)"
| grpc_returns: "lf_grpc s = Running \<Longrightarrow> r = GRPCServer_Run (le_ErrServerStopped E) None serve \<Longrightarrow>
    life_step E app s (LifeGrpcServe serve) (s\<lparr>lf_grpc := Returned r, lf_group := lf_return E r s\<rparr>)"
| http_serving: "lf_http s = Starting \<Longrightarrow> MetricsServer_HTTPServer (app_metricsServer app) = Some server \<Longrightarrow>
    life_step E app s LifeHttpStart (s\<lparr>lf_http := Running\<rparr>)"
| http_stopping: "lf_http s = Running \<Longrightarrow> lf_ctx E s \<noteq> None \<Longrightarrow> \<not> lf_httpStopping s \<Longrightarrow>
    life_step E app s LifeHttpStop (s\<lparr>lf_httpStopping := True\<rparr>)"
| http_returns: "lf_http s = Running \<Longrightarrow>
    MetricsServer_Run (le_ErrServerClosed E) (\<lambda>_. serve) (app_metricsServer app) = Some r \<Longrightarrow>
    life_step E app s (LifeHttpServe serve) (s\<lparr>lf_http := Returned r, lf_group := lf_return E r s\<rparr>)"

inductive life_run ::
  "('g, 'x) life_env \<Rightarrow> app \<Rightarrow> ('g, 'x) life \<Rightarrow> life_op list \<Rightarrow> ('g, 'x) life \<Rightarrow> bool" for E app where
  life_start: "life_run E app s [] s"
| life_next: "life_run E app s ops s' \<Longrightarrow> life_step E app s' op s'' \<Longrightarrow> life_run E app s (ops @ [op]) s''"

lemma life_run_Cons:
  "life_run E app s' ops s'' \<Longrightarrow> life_step E app s op s' \<Longrightarrow> life_run E app s (op # ops) s''"
proof (induction rule: life_run.induct)
  case (life_start s')
  then show ?case using life_run.intros(2) [OF life_run.intros(1)] by fastforce
next
  case (life_next s' ops s1 op' s2)
  then show ?case using life_run.intros(2) [of E app s "op # ops"] by simp
qed

definition life_init :: "app \<Rightarrow> 'g \<Rightarrow> 'x \<Rightarrow> ('g, 'x) life" where
  "life_init app g x = \<lparr>lf_group = g, lf_world = (app_init app, x), lf_agg = Running, lf_consumer = Running,
     lf_grpc = Starting, lf_grpcStopping = False, lf_http = Starting, lf_httpStopping = False\<rparr>"

definition phases :: "('g, 'x) life \<Rightarrow> phase list" where
  "phases s = [lf_agg s, lf_consumer s, lf_grpc s, lf_http s]"

fun is_returned :: "phase \<Rightarrow> bool" where
  "is_returned (Returned r) = True"
| "is_returned _ = False"

definition finished :: "('g, 'x) life \<Rightarrow> bool" where
  "finished s \<longleftrightarrow> list_all is_returned (phases s)"

section \<open>How the process ends\<close>

lemma agg_Run_one:
  assumes "agg_Run a [ev] = (r, a', ms)" and "receives c ev"
    and "\<And>e. c = Some e \<Longrightarrow> isContextError e"
  shows "r = (if c = None then None else Some None)"
  using assms
  by (cases ev) (auto simp: agg_RebuildTop_def isContextError_def Let_def split: option.splits prod.splits if_splits)

lemma agg_Run_one_state:
  assumes "agg_Run a [ev] = (None, a', ms)" and "receives c ev"
  shows "\<exists>now elapsed. a' = agg_step a (OpRebuild c now elapsed)"
  using assms by (cases ev) (auto split: option.splits prod.splits if_splits, metis fst_conv snd_conv)

lemma errgroup_okD:
  assumes "errgroup_ok G"
  shows "eg_Context G g = Some e \<Longrightarrow> isContextError e"
    and "eg_Context G (eg_Signal G g) \<noteq> None" and "eg_Wait G (eg_Signal G g) = eg_Wait G g"
    and "eg_Context G (eg_Returned G None g) = eg_Context G g" and "eg_Wait G (eg_Returned G None g) = eg_Wait G g"
    and "eg_Context G (eg_Returned G (Some e) g) \<noteq> None"
    and "eg_Wait G (eg_Returned G (Some e) g) = (case eg_Wait G g of None \<Rightarrow> Some e | Some e0 \<Rightarrow> Some e0)"
  using assms by (auto simp: errgroup_ok_def)

text \<open>
  The invariant: the rebuild loop returns nil, and only under a context that is done; the group has an error
  exactly if a goroutine has returned one, and that one; and the context is done only after a signal or an
  error.
\<close>

definition life_inv :: "('g, 'x) life_env \<Rightarrow> bool \<Rightarrow> ('g, 'x) life \<Rightarrow> bool" where
  "life_inv E signalled s \<longleftrightarrow>
     (lf_agg s = Running \<or> lf_agg s = Returned None \<and> lf_ctx E s \<noteq> None) \<and>
     (\<forall>e. eg_Wait (le_group E) (lf_group s) = Some e \<longrightarrow> Returned (Some e) \<in> set (phases s)) \<and>
     (\<forall>e. Returned (Some e) \<in> set (phases s) \<longrightarrow> eg_Wait (le_group E) (lf_group s) \<noteq> None) \<and>
     (lf_ctx E s \<noteq> None \<longrightarrow> signalled \<or> eg_Wait (le_group E) (lf_group s) \<noteq> None)"

text \<open>A goroutine that returns \<open>r\<close> keeps the invariant, whichever it is.\<close>

lemma life_inv_return:
  assumes "errgroup_ok (le_group E)" and "life_inv E sig s"
    and "lf_group s' = lf_return E r s"
    and "lf_agg s' = lf_agg s \<or> lf_agg s' = Returned None \<and> lf_ctx E s \<noteq> None \<and> r = None"
    and "Returned r \<in> set (phases s')"
    and "\<And>e. Returned (Some e) \<in> set (phases s) \<Longrightarrow> Returned (Some e) \<in> set (phases s')"
    and "\<And>e. Returned (Some e) \<in> set (phases s') \<Longrightarrow> Returned (Some e) \<in> set (phases s) \<or> r = Some e"
  shows "life_inv E sig s'"
proof (cases r)
  case None
  then show ?thesis
    using assms(2-7) unfolding life_inv_def assms(3) None errgroup_okD(4,5) [OF assms(1)] by (metis option.distinct(1))
next
  case (Some e)
  then have "lf_agg s' = lf_agg s" using assms(4) by simp
  then show ?thesis
    using assms(2-7) errgroup_okD(6) [OF assms(1), of e "lf_group s"]
    unfolding life_inv_def assms(3) Some errgroup_okD(7) [OF assms(1)]
    by (auto split: option.splits)
qed

lemma life_step_inv:
  assumes "life_step E app s op s'" and "errgroup_ok (le_group E)" and "life_inv E sig s"
  shows "life_inv E (sig \<or> op = LifeSignal) s'"
  using assms(1)
proof cases
  case signal
  then show ?thesis
    using assms(3) errgroup_okD(2,3) [OF assms(2), of "lf_group s"] by (auto simp: life_inv_def phases_def)
next
  case (agg_returns ev st x r agg ms)
  have "r = None \<and> lf_ctx E s \<noteq> None"
    using agg_Run_one [OF agg_returns(6,4)] errgroup_okD(1) [OF assms(2), of "lf_group s"]
    by (metis option.distinct(1) option.inject)
  then have "life_inv E sig s'"
    using agg_returns by (intro life_inv_return [OF assms(2,3), where r = r]) (auto simp: phases_def)
  then show ?thesis using agg_returns(1) by simp
next
  case (consumer_returns r w as)
  then have "life_inv E sig s'"
    by (intro life_inv_return [OF assms(2,3), where r = r]) (auto simp: phases_def)
  then show ?thesis using consumer_returns(1) by simp
next
  case (grpc_listen_failed r err)
  then have "life_inv E sig s'"
    by (intro life_inv_return [OF assms(2,3), where r = r]) (auto simp: phases_def)
  then show ?thesis using grpc_listen_failed(1) by simp
next
  case (grpc_returns r serve)
  then have "life_inv E sig s'"
    by (intro life_inv_return [OF assms(2,3), where r = r]) (auto simp: phases_def)
  then show ?thesis using grpc_returns(1) by simp
next
  case (http_returns serve r)
  then have "life_inv E sig s'"
    by (intro life_inv_return [OF assms(2,3), where r = r]) (auto simp: phases_def)
  then show ?thesis using http_returns(1) by simp
qed (use assms(3) in \<open>auto simp: life_inv_def phases_def\<close>)

lemma life_run_inv:
  assumes "life_run E app s ops s'" and "errgroup_ok (le_group E)" and "life_inv E sig s"
  shows "life_inv E (sig \<or> LifeSignal \<in> set ops) s'"
  using assms
proof (induction rule: life_run.induct)
  case (life_next s ops s' op s'')
  have "life_inv E ((sig \<or> LifeSignal \<in> set ops) \<or> op = LifeSignal) s''"
    using life_step_inv [OF life_next(2) life_next.prems(1)] life_next by blast
  moreover have "(sig \<or> LifeSignal \<in> set (ops @ [op])) = ((sig \<or> LifeSignal \<in> set ops) \<or> op = LifeSignal)" by auto
  ultimately show ?case by (simp only:)
qed simp

lemma life_init_inv:
  "eg_Context (le_group E) g = None \<Longrightarrow> eg_Wait (le_group E) g = None \<Longrightarrow> life_inv E False (life_init app g x)"
  by (simp add: life_inv_def life_init_def phases_def)

section \<open>Shutdown\<close>

text \<open>
  The reader of the Kafka client returns a context error at once when its context is done. The metrics server
  could be built.
\<close>

definition fetch_obeys :: "('g, 'x) life_env \<Rightarrow> bool" where
  "fetch_obeys E \<longleftrightarrow> (\<forall>e w. \<exists>err w'. env_fetch (le_kafka E (Some e)) w = (Inl err, w') \<and> isContextError err)"

fun phase_steps :: "bool \<Rightarrow> phase \<Rightarrow> nat" where
  "phase_steps stopping (Returned r) = 0"
| "phase_steps stopping Running = (if stopping then 1 else 2)"
| "phase_steps stopping Starting = 3"

text \<open>An upper bound on the number of steps that are left once the context is done.\<close>

definition steps_left :: "('g, 'x) life \<Rightarrow> nat" where
  "steps_left s = phase_steps True (lf_agg s) + phase_steps True (lf_consumer s) +
     phase_steps (lf_grpcStopping s) (lf_grpc s) + phase_steps (lf_httpStopping s) (lf_http s)"

text \<open>The two loops run from the start, and a server is being stopped only while it serves or after.\<close>

definition started :: "('g, 'x) life \<Rightarrow> bool" where
  "started s \<longleftrightarrow> lf_agg s \<noteq> Starting \<and> lf_consumer s \<noteq> Starting"

lemma life_step_started: "life_step E app s op s' \<Longrightarrow> started s \<Longrightarrow> started s'"
  by (induction rule: life_step.induct) (auto simp: started_def)

lemma life_step_done:
  assumes "life_step E app s op s'" and "errgroup_ok (le_group E)" and "lf_ctx E s \<noteq> None"
  shows "lf_ctx E s' \<noteq> None"
proof -
  have "eg_Context (le_group E) (eg_Returned (le_group E) r (lf_group s)) \<noteq> None" for r
    using assms(3) errgroup_okD(4,6) [OF assms(2)] by (cases r) metis+
  with assms(1) show ?thesis
    by cases (use assms(3) errgroup_okD(2) [OF assms(2)] in auto)
qed

lemma consumer_done:
  assumes "fetch_obeys E" and "lf_ctx E s \<noteq> None"
  shows "\<exists>w as. runIteration (le_kafka E (lf_ctx E s)) con w0 = (Return None, w, as)"
proof -
  obtain e where e: "lf_ctx E s = Some e" using assms(2) by blast
  obtain err w' where "env_fetch (le_kafka E (Some e)) w0 = (Inl err, w')" "isContextError err"
    using assms(1) unfolding fetch_obeys_def by blast
  then show ?thesis by (simp add: runIteration_def e)
qed

lemma life_step_decreases:
  assumes "life_step E app s op s'" and "errgroup_ok (le_group E)" and "fetch_obeys E"
    and "lf_ctx E s \<noteq> None" and "op \<noteq> LifeSignal"
  shows "steps_left s' < steps_left s"
  using assms(1)
proof cases
  case (agg_continues ev st x agg ms)
  then have False
    using agg_Run_one [OF agg_continues(6,4)] errgroup_okD(1) [OF assms(2), of "lf_group s"] assms(4)
    by (metis option.distinct(1))
  then show ?thesis ..
next
  case (consumer_continues w as)
  then show ?thesis using consumer_done [OF assms(3,4), of "app_consumer app" "lf_world s"] by auto
qed (use assms(5) in \<open>auto simp: steps_left_def\<close>)

lemma life_step_progress:
  assumes "errgroup_ok (le_group E)" and "fetch_obeys E" and "lf_ctx E s \<noteq> None"
    and "MetricsServer_HTTPServer (app_metricsServer app) \<noteq> None" and "started s" and "\<not> finished s"
  shows "\<exists>op s'. life_step E app s op s' \<and> op \<noteq> LifeSignal"
proof -
  from assms(6) consider (agg) "\<not> is_returned (lf_agg s)" | (con) "\<not> is_returned (lf_consumer s)"
    | (grpc) "\<not> is_returned (lf_grpc s)" | (http) "\<not> is_returned (lf_http s)"
    by (auto simp: finished_def phases_def)
  then show ?thesis
  proof cases
    case agg
    then have "lf_agg s = Running" using assms(5) by (cases "lf_agg s") (auto simp: started_def)
    moreover obtain st x where "lf_world s = (st, x)" by fastforce
    ultimately show ?thesis
      using agg_returns [of s E RunDone st x None "app_agg st" "[]" app] assms(3) by auto
  next
    case con
    then have "lf_consumer s = Running" using assms(5) by (cases "lf_consumer s") (auto simp: started_def)
    moreover obtain w as where
      "runIteration (le_kafka E (lf_ctx E s)) (app_consumer app) (lf_world s) = (Return None, w, as)"
      using consumer_done [OF assms(2,3)] by blast
    ultimately show ?thesis using consumer_returns by blast
  next
    case grpc
    then show ?thesis
      using assms(3) grpc_listening [of s E app] grpc_returns [of s _ E None app]
      by (cases "lf_grpc s") auto
  next
    case http
    have "\<exists>r. MetricsServer_Run (le_ErrServerClosed E) (\<lambda>_. None) (app_metricsServer app) = Some r"
      using assms(4) by (auto simp: MetricsServer_Run_def)
    then show ?thesis
      using http assms(4) http_serving [of s app _ E] http_returns [of s E None app]
      by (cases "lf_http s") auto
  qed
qed

lemma life_run_bound:
  assumes "life_run E app s ops s'" and "errgroup_ok (le_group E)" and "fetch_obeys E"
    and "lf_ctx E s \<noteq> None" and "started s" and "LifeSignal \<notin> set ops"
  shows "length ops + steps_left s' \<le> steps_left s \<and> lf_ctx E s' \<noteq> None \<and> started s'"
  using assms
proof (induction rule: life_run.induct)
  case (life_next s ops s' op s'')
  then have IH: "length ops + steps_left s' \<le> steps_left s" "lf_ctx E s' \<noteq> None" "started s'" and "op \<noteq> LifeSignal"
    by auto
  then show ?case
    using life_step_decreases [OF life_next(2)] life_step_done [OF life_next(2)]
      life_step_started [OF life_next(2)] life_next.prems by fastforce
qed simp

lemma steps_left_bound: "started s \<Longrightarrow> steps_left s \<le> 8"
proof -
  assume "started s"
  then have "phase_steps True (lf_agg s) \<le> 1" "phase_steps True (lf_consumer s) \<le> 1"
    by (cases "lf_agg s"; cases "lf_consumer s"; simp add: started_def)+
  moreover have "phase_steps b p \<le> 3" for b p by (cases p) auto
  then have "phase_steps (lf_grpcStopping s) (lf_grpc s) \<le> 3" "phase_steps (lf_httpStopping s) (lf_http s) \<le> 3"
    by blast+
  ultimately show ?thesis unfolding steps_left_def by linarith
qed

lemma life_run_started: "life_run E app s ops s' \<Longrightarrow> started s \<Longrightarrow> started s'"
  by (induction rule: life_run.induct) (auto intro: life_step_started)

lemma life_init_started: "started (life_init app g x)"
  by (simp add: started_def life_init_def)

section \<open>A consumer that stops alone\<close>

text \<open>Steps in which no signal arrives and no server fails or stops.\<close>

fun quiet :: "life_op \<Rightarrow> bool" where
  "quiet LifeSignal \<longleftrightarrow> False"
| "quiet (LifeGrpcListen r) \<longleftrightarrow> r = None"
| "quiet (LifeGrpcServe r) \<longleftrightarrow> False"
| "quiet (LifeHttpServe r) \<longleftrightarrow> False"
| "quiet _ \<longleftrightarrow> True"

text \<open>The consumer has returned nil, the context is live, and since the aggregator \<open>a\<close> there were only rebuilds.\<close>

definition silent :: "('g, 'x) life_env \<Rightarrow> aggregator \<Rightarrow> ('g, 'x) life \<Rightarrow> bool" where
  "silent E a s \<longleftrightarrow> lf_consumer s = Returned None \<and> lf_ctx E s = None \<and> lf_agg s = Running \<and>
     (\<exists>ticks. app_agg (fst (lf_world s)) = foldl agg_step a (map (\<lambda>(now, d). OpRebuild None now d) ticks))"

lemma life_step_silent:
  assumes "life_step E app s op s'" and "errgroup_ok (le_group E)" and "silent E a s" and "quiet op"
  shows "silent E a s'"
  using assms(1)
proof cases
  case (agg_continues ev st x agg ms)
  have c: "receives None ev" using agg_continues(4) assms(3) by (simp add: silent_def)
  then obtain now d where agg: "agg = agg_step (app_agg st) (OpRebuild None now d)"
    using agg_Run_one_state [OF agg_continues(6) c] by blast
  obtain ticks where t: "app_agg st = foldl agg_step a (map (\<lambda>(now, d). OpRebuild None now d) ticks)"
    using assms(3) agg_continues(5) by (auto simp: silent_def)
  have "agg = foldl agg_step a (map (\<lambda>(now, d). OpRebuild None now d) (ticks @ [(now, d)]))"
    using agg t by simp
  then have "\<exists>ticks. agg = foldl agg_step a (map (\<lambda>(now, d). OpRebuild None now d) ticks)" by blast
  then show ?thesis using agg_continues(2) assms(3) by (simp add: silent_def)
next
  case (agg_returns ev st x r agg ms)
  then have "lf_ctx E s = None" using assms(3) by (simp add: silent_def)
  then have False using agg_Run_one [OF agg_returns(6,4)] by simp
  then show ?thesis ..
qed (use assms(3,4) in \<open>auto simp: silent_def\<close>)

lemma life_run_silent:
  "life_run E app s ops s' \<Longrightarrow> errgroup_ok (le_group E) \<Longrightarrow> silent E a s \<Longrightarrow> list_all quiet ops \<Longrightarrow> silent E a s'"
  by (induction rule: life_run.induct) (auto intro: life_step_silent)

lemma consumer_stops_silently:
  assumes "errgroup_ok (le_group E)" and "lf_consumer s = Running" and "lf_agg s = Running" and "lf_ctx E s = None"
    and "env_fetch (le_kafka E None) (lf_world s) = (Inl err, w)" and "errors_Is err DeadlineExceeded"
  shows "\<exists>s'. life_step E app s LifeConsumer s' \<and> silent E (app_agg (fst w)) s'"
proof -
  let ?s = "s\<lparr>lf_world := w, lf_consumer := Returned None, lf_group := lf_return E None s\<rparr>"
  have "runIteration (le_kafka E (lf_ctx E s)) (app_consumer app) (lf_world s) = (Return None, w, [ActFetch (Inl err)])"
    using assms(4-6) by (simp add: runIteration_def isContextError_def)
  then have "life_step E app s LifeConsumer ?s" by (rule consumer_returns [OF assms(2)])
  moreover have "silent E (app_agg (fst w)) ?s"
    using assms(3,4) errgroup_okD(4) [OF assms(1)] by (auto simp: silent_def intro: exI [of _ "[]"])
  ultimately show ?thesis by blast
qed

lemma silent_not_finished: "silent E a s \<Longrightarrow> \<not> finished s"
  by (simp add: silent_def finished_def phases_def)

section \<open>A concrete environment\<close>

text \<open>A group is a flag for its context and the first error. The reader times out until its context is done.\<close>

definition sample_group :: "(bool \<times> go_error option) errgroup" where
  "sample_group = \<lparr>eg_Context = (\<lambda>(done, e). if done then Some Canceled else None),
     eg_Signal = (\<lambda>(done, e). (True, e)),
     eg_Returned = (\<lambda>r (done, e). case r of None \<Rightarrow> (done, e)
       | Some err \<Rightarrow> (True, case e of None \<Rightarrow> Some err | Some e0 \<Rightarrow> Some e0)),
     eg_Wait = snd\<rparr>"

lemma sample_group_ok: "errgroup_ok sample_group"
  by (auto simp: errgroup_ok_def sample_group_def isContextError_def split: option.splits)

definition sample_life_env :: "(bool \<times> go_error option, int) life_env" where
  "sample_life_env = \<lparr>le_group = sample_group,
     le_kafka = (\<lambda>c. (service_env 0)\<lparr>env_fetch := (\<lambda>w.
       (Inl (case c of None \<Rightarrow> ErrWrap ''dial tcp'' DeadlineExceeded | Some _ \<Rightarrow> Canceled), w))\<rparr>),
     le_ErrServerStopped = ErrNew ''grpc: the server has been stopped'',
     le_ErrServerClosed = ErrNew ''http: Server closed''\<rparr>"

lemma sample_fetch_obeys: "fetch_obeys sample_life_env"
  by (simp add: fetch_obeys_def sample_life_env_def isContextError_def)

lemma sample_life_group [simp]: "le_group sample_life_env = sample_group"
  by (simp add: sample_life_env_def)

end
