(* ===== verification/Service_Samples.thy ===== *)
theory Service_Samples
  imports Lifecycle
begin

text \<open>
  A concrete service for the properties of the whole service: the default configuration with one broker and
  one stop word, events that arrive, and a run from the start to the end.
\<close>

definition spam_config_file :: config where
  "spam_config_file = defaultConfig\<lparr>c_Kafka := (c_Kafka defaultConfig)\<lparr>Brokers := [''kafka:9092'']\<rparr>,
     c_StopList := \<lparr>InitialWords = ['' Spam'']\<rparr>\<rparr>"

definition spam_arrival :: kafka_event where
  "spam_arrival = sample_kafka_event\<lparr>ke_Query := ''SPAM''\<rparr>"

definition sample_metric_set :: metrics where
  "sample_metric_set = metrics_of (map (newCollector [] [] [] []) [0..<19])"

lemma spam_service:
  obtains app where "app_start sample_libs (Inr spam_config_file) now = Inr app"
    and "app_stopWords (app_init app) = sl_NewManager ['' Spam'']"
    and "service_step (initial_service app) (EventArrives spam_arrival) [ObserveEvent ''stopped'']
      (initial_service app)"
proof -
  have "config_valid spam_config_file"
    "ac_Window (c_Aggregator spam_config_file) mod ac_BucketSize (c_Aggregator spam_config_file) = 0"
    by (simp_all add: config_valid_def spam_config_file_def defaultConfig_def)
  then obtain app where app: "app_start sample_libs (Inr spam_config_file) now = Inr app"
    and w: "app_stopWords (app_init app) = sl_NewManager ['' Spam'']"
    using app_start_ok [OF sample_libs_ok, of spam_config_file now] by (auto simp: spam_config_file_def)
  have "sl_Contains (sl_NewManager ['' Spam'']) ''SPAM''" by code_simp
  then have "service_step (initial_service app) (EventArrives spam_arrival) [ObserveEvent ''stopped'']
      (initial_service app)"
    using w by (intro event_stopped) (simp_all add: initial_service_def spam_arrival_def)
  then show ?thesis using that app w by blast
qed

lemma spam_service_agg:
  assumes "app_start sample_libs (Inr spam_config_file) now = Inr app"
  defines "a \<equiv> app_agg (app_init app)"
  shows "BucketSize (agg_cfg a) = second" "Window (agg_cfg a) = 300 * second" "bucketCount a = 300"
    "DefaultLimit (agg_cfg a) = DefaultLimit (toAggConfig defaultConfig)"
    "MaxQueryRunes (agg_cfg a) = MaxQueryRunes (toAggConfig defaultConfig)"
    "AllowedFutureSkew (agg_cfg a) = AllowedFutureSkew (toAggConfig defaultConfig)"
  using assms by (auto simp: app_start_def spam_config_file_def defaultConfig_def Let_def agg_New_def toAggConfig_def
      defaultBucket_def defaultRest_def split: sum.splits option.splits prod.splits if_splits)

text \<open>A run of the sample service from its start through a signal to its end.\<close>

lemma sample_shutdown:
  assumes "app_start sample_libs (Inr spam_config_file) now = Inr app"
  shows "MetricsServer_HTTPServer (app_metricsServer app) \<noteq> None"
    and "\<exists>ops s. life_run sample_life_env app (life_init app (False, None) 0) (LifeSignal # ops) s \<and>
      lf_group s = (True, None) \<and> finished s"
proof -
  show srv: "MetricsServer_HTTPServer (app_metricsServer app) \<noteq> None"
    using assms by (auto simp: app_start_def spam_config_file_def defaultConfig_def Let_def NewMetricsServer_def
        MetricsServer_HTTPServer_def MetricsServer_Handler_def mux_Handle_def
        split: sum.splits option.splits prod.splits)
  let ?E = sample_life_env and ?i = "life_init app (False, None) 0 :: (bool \<times> go_error option, int) life"
  let ?s0 = "?i\<lparr>lf_group := (True, None)\<rparr>"
  let ?s1 = "?s0\<lparr>lf_agg := Returned None\<rparr>"
  let ?s2 = "?s1\<lparr>lf_consumer := Returned None\<rparr>"
  let ?s3 = "?s2\<lparr>lf_grpc := Running\<rparr>" let ?s4 = "?s3\<lparr>lf_grpc := Returned None\<rparr>"
  let ?s5 = "?s4\<lparr>lf_http := Running\<rparr>" let ?s6 = "?s5\<lparr>lf_http := Returned None\<rparr>"
  have g: "eg_Returned sample_group None (True, None) = (True, None)" "eg_Signal sample_group (False, None) = (True, None)"
    "eg_Context sample_group (True, None) = Some Canceled" by (simp_all add: sample_group_def)
  have "life_step ?E app ?i LifeSignal ?s0"
    using signal [of ?E app ?i] g by (simp add: life_init_def)
  moreover have "life_step ?E app ?s0 (LifeAgg RunDone) ?s1"
    using agg_returns [of ?s0 ?E RunDone "app_init app" 0 None "app_agg (app_init app)" "[]" app] g
    by (simp add: life_init_def)
  moreover have "life_step ?E app ?s1 LifeConsumer ?s2"
    using consumer_returns [of ?s1 ?E app None "(app_init app, 0)" "[ActFetch (Inl Canceled)]"] g
    by (simp add: life_init_def runIteration_def sample_life_env_def isContextError_def)
  moreover have "life_step ?E app ?s2 (LifeGrpcListen None) ?s3"
    by (rule grpc_listening) (simp add: life_init_def)
  moreover have "life_step ?E app ?s3 (LifeGrpcServe None) ?s4"
    using grpc_returns [of ?s3 None ?E None app] g by (simp add: life_init_def GRPCServer_Run_def)
  moreover have "life_step ?E app ?s4 LifeHttpStart ?s5"
    using srv http_serving [of ?s4 app _ ?E] by (auto simp: life_init_def)
  moreover have "life_step ?E app ?s5 (LifeHttpServe None) ?s6"
    using srv http_returns [of ?s5 ?E None app None] g by (auto simp: life_init_def MetricsServer_Run_def)
  ultimately have "life_run ?E app ?i [LifeSignal, LifeAgg RunDone, LifeConsumer, LifeGrpcListen None,
      LifeGrpcServe None, LifeHttpStart, LifeHttpServe None] ?s6"
    by (intro life_run_Cons [OF life_run_Cons [OF life_run_Cons [OF life_run_Cons [OF life_run_Cons
        [OF life_run_Cons [OF life_run_Cons [OF life_start]]]]]]])
  moreover have "finished ?s6" "lf_group ?s6 = (True, None)"
    by (simp_all add: finished_def phases_def life_init_def)
  ultimately show "\<exists>ops s. life_run ?E app ?i (LifeSignal # ops) s \<and> lf_group s = (True, None) \<and> finished s"
    by blast
qed

end
