(* ===== verification/Producer.thy ===== *)
theory Producer
  imports Kafka_Safety Go_Fmt Go_Float
begin

text \<open>
  \<open>cmd/producer/main.go\<close>: the load generator. The flags are a record; the random sources, the clock,
  \<open>json.Marshal\<close>, the Kafka writer and the select of \<open>sleep\<close> are an environment with a state \<open>'w\<close>, as for
  the consumer. \<open>rng.Intn(n)\<close> panics for \<open>n \<le> 0\<close>, which is \<open>None\<close>. A \<open>float64\<close> flag can be infinite or
  not a number.
\<close>

section \<open>Data\<close>

datatype f64_value = F64 rat | PosInf | NegInf | NaN

fun f64_less :: "f64_value \<Rightarrow> f64_value \<Rightarrow> bool" where
  "f64_less (F64 a) (F64 b) \<longleftrightarrow> a < b"
| "f64_less NegInf y \<longleftrightarrow> y \<noteq> NegInf \<and> y \<noteq> NaN"
| "f64_less x PosInf \<longleftrightarrow> x \<noteq> PosInf \<and> x \<noteq> NaN"
| "f64_less _ _ \<longleftrightarrow> False"

record producer_event =
  pv_EventID :: string
  pv_Query :: string
  pv_UserID :: string
  pv_SessionID :: string
  pv_IP :: string
  pv_UserAgent :: string
  pv_Timestamp :: string

record event_input =
  in_query :: string
  in_userID :: string
  in_sessionID :: string
  in_ip :: string
  in_userAgent :: string

record producer_flags =
  pf_brokers :: string
  pf_topic :: string
  pf_query :: string
  pf_userID :: string
  pf_sessionID :: string
  pf_ip :: string
  pf_userAgent :: string
  pf_count :: int
  pf_interval :: duration
  pf_queryPoolSize :: int
  pf_users :: int
  pf_botRatio :: f64_value

record 'w producer_env =
  pe_read :: "'w \<Rightarrow> (go_error + string) \<times> 'w"
  pe_Float64 :: "'w \<Rightarrow> rat \<times> 'w"
  pe_Intn :: "int \<Rightarrow> 'w \<Rightarrow> int \<times> 'w"
  pe_stamp :: "'w \<Rightarrow> string"
  pe_marshal :: "producer_event \<Rightarrow> go_error + string"
  pe_write :: "string \<Rightarrow> string \<Rightarrow> 'w \<Rightarrow> go_error option \<times> 'w"
  pe_select :: "duration \<Rightarrow> 'w \<Rightarrow> ctx \<times> 'w"

section \<open>Generating an event\<close>

definition rng_Intn :: "'w producer_env \<Rightarrow> int \<Rightarrow> 'w \<Rightarrow> (int \<times> 'w) option" where
  "rng_Intn env n w = (if n \<le> 0 then None else Some (pe_Intn env n w))"

definition weightedQuery :: "'w producer_env \<Rightarrow> int \<Rightarrow> 'w \<Rightarrow> (string \<times> 'w) option" where
  "weightedQuery env poolSize w =
     (let popularCount = max 1 (go_quot poolSize 10);
          (f, w1) = pe_Float64 env w
      in if f < f64 (8 / 10)
         then (case rng_Intn env popularCount w1 of
                 None \<Rightarrow> None
               | Some (n, w2) \<Rightarrow> Some (''popular-query-'' @ fmt_pad 3 n, w2))
         else (case rng_Intn env poolSize w1 of
                 None \<Rightarrow> None
               | Some (n, w2) \<Rightarrow> Some (''rare-query-'' @ fmt_pad 3 n, w2)))"

definition generateEventInput ::
  "'w producer_env \<Rightarrow> producer_flags \<Rightarrow> 'w \<Rightarrow> (event_input \<times> 'w) option" where
  "generateEventInput env cfg w =
     (if pf_queryPoolSize cfg \<le> 0
      then Some (\<lparr>in_query = pf_query cfg, in_userID = pf_userID cfg, in_sessionID = pf_sessionID cfg,
                  in_ip = pf_ip cfg, in_userAgent = pf_userAgent cfg\<rparr>, w)
      else (case weightedQuery env (pf_queryPoolSize cfg) w of
              None \<Rightarrow> None
            | Some (query, w1) \<Rightarrow>
                (let (f, w2) = pe_Float64 env w1
                 in if f64_less (F64 f) (pf_botRatio cfg)
                    then Some (\<lparr>in_query = ''popular-query-000'', in_userID = ''bot-actor'',
                                in_sessionID = ''bot-session'', in_ip = ''10.255.0.1'',
                                in_userAgent = pf_userAgent cfg\<rparr>, w2)
                    else (case rng_Intn env (pf_users cfg) w2 of
                            None \<Rightarrow> None
                          | Some (userIndex, w3) \<Rightarrow>
                              Some (\<lparr>in_query = query,
                                in_userID = (if pf_userID cfg = [] then ''user-'' @ fmt_pad 5 userIndex
                                             else pf_userID cfg),
                                in_sessionID = (if pf_sessionID cfg = []
                                                then ''session-'' @ fmt_pad 5 userIndex
                                                else pf_sessionID cfg),
                                in_ip = (if pf_ip cfg = []
                                         then ''10.0.'' @ fmt_Sprint (go_rem (go_quot userIndex 255) 255) @
                                              ''.'' @ fmt_Sprint (go_rem userIndex 255)
                                         else pf_ip cfg),
                                in_userAgent = pf_userAgent cfg\<rparr>, w3)))))"

definition newEventID :: "'w producer_env \<Rightarrow> 'w \<Rightarrow> (go_error + string) \<times> 'w" where
  "newEventID env w =
     (case pe_read env w of
        (Inl err, w1) \<Rightarrow> (Inl (ErrWrap ''generate event id'' err), w1)
      | (Inr data, w1) \<Rightarrow> (Inr (''evt_'' @ hex_EncodeToString data), w1))"

definition splitBrokers :: "string \<Rightarrow> string list" where
  "splitBrokers value = filter (\<lambda>broker. broker \<noteq> []) (map TrimSpace (split_comma value))"

section \<open>Running\<close>

definition checkFlags :: "producer_flags \<Rightarrow> go_error option" where
  "checkFlags fl =
     (if length (splitBrokers (pf_brokers fl)) = 0 then Some (ErrNew ''at least one broker is required'')
      else if TrimSpace (pf_topic fl) = [] then Some (ErrNew ''topic is required'')
      else if TrimSpace (pf_query fl) = [] then Some (ErrNew ''query is required'')
      else if pf_count fl \<le> 0 then Some (ErrNew ''count must be positive'')
      else if pf_queryPoolSize fl < 0 then Some (ErrNew ''query-pool-size must not be negative'')
      else if pf_users fl \<le> 0 then Some (ErrNew ''users must be positive'')
      else if f64_less (pf_botRatio fl) (F64 0) \<or> f64_less (F64 1) (pf_botRatio fl)
        then Some (ErrNew ''bot-ratio must be between 0 and 1'')
      else None)"

definition producer_sleep :: "'w producer_env \<Rightarrow> duration \<Rightarrow> 'w \<Rightarrow> go_error option \<times> 'w" where
  "producer_sleep env d w = pe_select env d w"

text \<open>What one run of the loop body does: the error it returns, or the event it wrote.\<close>

datatype step_result = StepPanic | StepError go_error | StepSent producer_event string

definition sendOne :: "'w producer_env \<Rightarrow> producer_flags \<Rightarrow> 'w \<Rightarrow> step_result \<times> 'w" where
  "sendOne env fl w =
     (case newEventID env w of
        (Inl err, w1) \<Rightarrow> (StepError err, w1)
      | (Inr eventID, w1) \<Rightarrow>
          (case generateEventInput env fl w1 of
             None \<Rightarrow> (StepPanic, w1)
           | Some (generated, w2) \<Rightarrow>
               (let event = \<lparr>pv_EventID = eventID, pv_Query = in_query generated,
                      pv_UserID = in_userID generated, pv_SessionID = in_sessionID generated,
                      pv_IP = in_ip generated, pv_UserAgent = in_userAgent generated,
                      pv_Timestamp = pe_stamp env w2\<rparr>
                in case pe_marshal env event of
                     Inl err \<Rightarrow> (StepError (ErrWrap ''marshal event'' err), w2)
                   | Inr payload \<Rightarrow>
                       (case pe_write env (pv_UserID event) payload w2 of
                          (Some err, w3) \<Rightarrow> (StepError (ErrWrap ''write event'' err), w3)
                        | (None, w3) \<Rightarrow> (StepSent event payload, w3)))))"

text \<open>
  The loop returns what \<open>run\<close> returns (\<open>None\<close> for a panic), the events that were written and the final
  state.
\<close>

function producerLoop ::
  "'w producer_env \<Rightarrow> producer_flags \<Rightarrow> int \<Rightarrow> (producer_event \<times> string) list \<Rightarrow> 'w \<Rightarrow>
   go_error option option \<times> (producer_event \<times> string) list \<times> 'w" where
  "producerLoop env fl i sent w =
     (if i < pf_count fl then
        (case sendOne env fl w of
           (StepPanic, w1) \<Rightarrow> (None, sent, w1)
         | (StepError err, w1) \<Rightarrow> (Some (Some err), sent, w1)
         | (StepSent event payload, w1) \<Rightarrow>
             (if 0 < pf_interval fl \<and> i < pf_count fl - 1 then
                (case producer_sleep env (pf_interval fl) w1 of
                   (Some err, w2) \<Rightarrow> (Some None, sent @ [(event, payload)], w2)
                 | (None, w2) \<Rightarrow> producerLoop env fl (i + 1) (sent @ [(event, payload)]) w2)
              else producerLoop env fl (i + 1) (sent @ [(event, payload)]) w1))
      else (Some None, sent, w))"
  by pat_completeness auto
termination
  by (relation "measure (\<lambda>(env, fl, i, sent, w). nat (pf_count fl - i))") auto

declare producerLoop.simps [simp del]

definition producer_run ::
  "'w producer_env \<Rightarrow> producer_flags \<Rightarrow> 'w \<Rightarrow>
   go_error option option \<times> (producer_event \<times> string) list \<times> 'w" where
  "producer_run env fl w =
     (case checkFlags fl of
        Some err \<Rightarrow> (Some (Some err), [], w)
      | None \<Rightarrow> producerLoop env fl 0 [] w)"

text \<open>The exit code of \<open>main\<close>; a panic ends the process with 2.\<close>

definition producer_main :: "go_error option option \<Rightarrow> int" where
  "producer_main result = (case result of None \<Rightarrow> 2 | Some (Some _) \<Rightarrow> 1 | Some None \<Rightarrow> 0)"

section \<open>What the producer sends\<close>

lemma checkFlags_valid:
  "checkFlags fl = None \<longleftrightarrow>
     splitBrokers (pf_brokers fl) \<noteq> [] \<and> TrimSpace (pf_topic fl) \<noteq> [] \<and> TrimSpace (pf_query fl) \<noteq> [] \<and>
     0 < pf_count fl \<and> 0 \<le> pf_queryPoolSize fl \<and> 0 < pf_users fl \<and>
     \<not> f64_less (pf_botRatio fl) (F64 0) \<and> \<not> f64_less (F64 1) (pf_botRatio fl)"
  by (auto simp: checkFlags_def)

text \<open>A share that is not a number passes the range check: both comparisons are false.\<close>

lemma bot_ratio_NaN_accepted:
  "checkFlags fl = None \<Longrightarrow> checkFlags (fl\<lparr>pf_botRatio := NaN\<rparr>) = None"
  by (simp add: checkFlags_valid)

lemma generateEventInput_total:
  assumes "0 < pf_users fl"
  shows "generateEventInput env fl w \<noteq> None"
  using assms
  by (auto simp: generateEventInput_def weightedQuery_def rng_Intn_def Let_def split: prod.splits if_splits)

lemma sendOne_no_panic:
  assumes "0 < pf_users fl"
  shows "sendOne env fl w \<noteq> (StepPanic, w')"
  using generateEventInput_total [OF assms, of env w']
  by (auto simp: sendOne_def Let_def split: prod.splits sum.splits option.splits)

lemma producerLoop_cases [consumes 1, case_names finished panicked failed stopped continues]:
  assumes "producerLoop env fl i sent w = (r, out, w')"
  obtains "pf_count fl \<le> i" "r = Some None" "out = sent"
  | w1 where "i < pf_count fl" "sendOne env fl w = (StepPanic, w1)" "r = None" "out = sent"
  | err w1 where "i < pf_count fl" "sendOne env fl w = (StepError err, w1)" "r = Some (Some err)" "out = sent"
  | e p w1 err w2 where "i < pf_count fl" "sendOne env fl w = (StepSent e p, w1)" "0 < pf_interval fl"
      "producer_sleep env (pf_interval fl) w1 = (Some err, w2)" "r = Some None" "out = sent @ [(e, p)]"
  | e p w1 w2 where "i < pf_count fl" "sendOne env fl w = (StepSent e p, w1)"
      "producerLoop env fl (i + 1) (sent @ [(e, p)]) w2 = (r, out, w')"
  using assms that(1)
  by (subst (asm) producerLoop.simps)
    (auto split: if_splits prod.splits step_result.splits option.splits intro: that)

lemma producerLoop_count:
  assumes "producerLoop env fl i sent w = (r, out, w')" and "0 < pf_users fl" and "i \<le> pf_count fl"
  shows "r \<noteq> None \<and> int (length out) - int (length sent) \<le> pf_count fl - i \<and>
    (r = Some None \<and> (pf_interval fl \<le> 0 \<or> (\<forall>d w. fst (producer_sleep env d w) = None)) \<longrightarrow>
       int (length out) - int (length sent) = pf_count fl - i)"
  using assms(1,3)
proof (induction "nat (pf_count fl - i)" arbitrary: i sent w)
  case 0
  from 0(2) show ?case by (cases rule: producerLoop_cases) (use 0 in auto)
next
  case (Suc n)
  from Suc.prems(1) show ?case
  proof (cases rule: producerLoop_cases)
    case panicked
    then show ?thesis by (simp add: sendOne_no_panic [OF assms(2)])
  next
    case (stopped e p w1 err w2)
    then have "\<not> (\<forall>d w. fst (producer_sleep env d w) = None)" by (metis fst_conv option.distinct(1))
    then show ?thesis using stopped by auto
  next
    case (continues e p w1 w2)
    have "n = nat (pf_count fl - (i + 1))" "i + 1 \<le> pf_count fl" using Suc.hyps(2) continues(1) by linarith+
    from Suc.hyps(1) [OF this(1) continues(3) this(2)] show ?thesis by auto
  qed (use Suc.hyps(2) in auto)
qed

text \<open>
  \<open>json.Marshal\<close> coerces strings to valid UTF-8: each byte that is not part of a well-formed rune becomes
  the replacement rune.
\<close>

definition to_valid :: "string \<Rightarrow> string" where
  "to_valid s = encode (runes s)"

definition raw_of :: "producer_event \<Rightarrow> raw_event" where
  "raw_of e = \<lparr>raw_EventID = to_valid (pv_EventID e), raw_Query = to_valid (pv_Query e),
     raw_UserID = to_valid (pv_UserID e), raw_SessionID = to_valid (pv_SessionID e),
     raw_IP = to_valid (pv_IP e), raw_UserAgent = to_valid (pv_UserAgent e),
     raw_Timestamp = to_valid (pv_Timestamp e)\<rparr>"

text \<open>
  The documented behaviour of the libraries on the two sides: decoding what was marshalled gives the fields
  back, coerced to valid UTF-8, and the RFC 3339 text of a time is printable and parses.
\<close>

definition codec_ok ::
  "'w producer_env \<Rightarrow> (string \<Rightarrow> go_error + raw_event) \<Rightarrow> (string \<Rightarrow> go_error + gotime) \<Rightarrow> bool" where
  "codec_ok env unmarshal parseTime \<longleftrightarrow>
     (\<forall>e s. pe_marshal env e = Inr s \<longrightarrow> unmarshal s = Inr (raw_of e)) \<and>
     (\<forall>w. list_all printable (pe_stamp env w) \<and> pe_stamp env w \<noteq> [] \<and>
          (\<exists>t. parseTime (pe_stamp env w) = Inr t))"

lemma to_valid_printable: "list_all printable s \<Longrightarrow> to_valid s = s"
proof -
  assume "list_all printable s"
  then have b: "33 \<le> byte c \<and> byte c < 127" if "c \<in> set s" for c
    using that by (simp add: list_all_iff printable_def byte_nat)
  then have "segments s = map (\<lambda>c. (byte c, [c])) s" by (intro segments_ascii) force
  then have "to_valid s = concat (map (\<lambda>c. encodeRune (byte c)) s)"
    by (simp add: to_valid_def runes_def encode_def comp_def)
  also have "\<dots> = concat (map (\<lambda>c. [c]) s)"
  proof (intro arg_cong [where f = concat] map_cong refl)
    fix c assume "c \<in> set s"
    then show "encodeRune (byte c) = [c]"
      using b [of c] by (simp add: encodeRune_def validRune_def chr_def Let_def)
  qed
  finally show ?thesis by simp
qed

lemma runes_to_valid [simp]: "runes (to_valid s) = runes s"
  using segments_encode [of "runes s"] runes_valid by (simp add: to_valid_def runes_def comp_def)

lemma blank_to_valid [simp]: "TrimSpace (to_valid s) = [] \<longleftrightarrow> TrimSpace s = []"
  by (simp add: TrimSpace_eq_Nil)

lemma printable_not_blank: "list_all printable s \<Longrightarrow> s \<noteq> [] \<Longrightarrow> TrimSpace s \<noteq> []"
  by (simp add: TrimSpace_printable)

lemma weightedQuery_printable:
  assumes "weightedQuery env n w = Some (q, w')"
  shows "list_all printable q \<and> q \<noteq> []"
proof -
  have "list_all printable ''popular-query-''" "list_all printable ''rare-query-''"
    by (simp_all add: printable_def)
  then show ?thesis
    using assms by (auto simp: weightedQuery_def Let_def split: prod.splits if_splits option.splits)
qed

lemma generated_query_not_blank:
  assumes "generateEventInput env fl w = Some (g, w')" and "TrimSpace (pf_query fl) \<noteq> []"
  shows "TrimSpace (in_query g) \<noteq> []"
proof -
  have "TrimSpace ''popular-query-000'' \<noteq> []"
    by (intro printable_not_blank) (simp_all add: printable_def)
  then show ?thesis
    using assms weightedQuery_printable printable_not_blank
    by (fastforce simp: generateEventInput_def Let_def split: prod.splits if_splits option.splits)
qed

lemma newEventID_printable:
  assumes "newEventID env w = (Inr eid, w')"
  shows "list_all printable eid \<and> eid \<noteq> []"
proof -
  have "list_all printable ''evt_''" by (simp add: printable_def)
  then show ?thesis using assms by (auto simp: newEventID_def split: prod.splits sum.splits)
qed

text \<open>Equal event ids come from equal random bytes.\<close>

lemma newEventID_inject:
  assumes "newEventID env w1 = (Inr eid, w1')" and "newEventID env w2 = (Inr eid, w2')"
  shows "fst (pe_read env w1) = fst (pe_read env w2)"
  using assms by (auto simp: newEventID_def dest: hex_inject split: prod.splits sum.splits)

text \<open>The broker addresses are trimmed, not empty and have no comma.\<close>

lemma splitBrokers_parts:
  assumes "b \<in> set (splitBrokers v)"
  shows "b \<noteq> [] \<and> TrimSpace b = b \<and> CHR '','' \<notin> set b"
proof -
  from assms obtain p where p: "p \<in> set (split_comma v)" "b = TrimSpace p" "b \<noteq> []"
    by (auto simp: splitBrokers_def)
  have "set (TrimSpace p) \<subseteq> set (concat (map snd (segments p)))"
    using set_trim [of "\<lambda>(r, b). IsSpace r" "segments p"] by (fastforce simp: TrimSpace_def)
  then have "set b \<subseteq> set p" using p(2) by (simp add: concat_segments)
  then show ?thesis using p split_comma_parts by (auto simp: TrimSpace_idem)
qed

text \<open>What the service decodes from the payload of a written event.\<close>

definition decoded_as :: "gotime \<Rightarrow> producer_event \<Rightarrow> kafka_event" where
  "decoded_as t e = \<lparr>ke_EventID = pv_EventID e, ke_Query = to_valid (pv_Query e),
     ke_UserID = TrimSpace (to_valid (pv_UserID e)), ke_SessionID = TrimSpace (to_valid (pv_SessionID e)),
     ke_IP = TrimSpace (to_valid (pv_IP e)), ke_UserAgent = TrimSpace (to_valid (pv_UserAgent e)),
     ke_Timestamp = t\<rparr>"

lemma sendOne_decodes:
  assumes "sendOne env fl w = (StepSent e p, w')" and "codec_ok env unmarshal parseTime"
    and "TrimSpace (pf_query fl) \<noteq> []"
  shows "\<exists>t. parseTime (pv_Timestamp e) = Inr t \<and> json_Decode unmarshal parseTime p = Inr (decoded_as t e)"
proof -
  from assms(1) obtain eid w1 g w2 where new: "newEventID env w = (Inr eid, w1)"
    and gen: "generateEventInput env fl w1 = Some (g, w2)"
    and e: "pv_EventID e = eid" "pv_Query e = in_query g" "pv_Timestamp e = pe_stamp env w2"
    and m: "pe_marshal env e = Inr p"
    by (auto simp: sendOne_def Let_def split: prod.splits sum.splits option.splits)
  have id: "list_all printable (pv_EventID e)" "pv_EventID e \<noteq> []"
    using newEventID_printable [OF new] e by simp_all
  have q: "TrimSpace (pv_Query e) \<noteq> []" using generated_query_not_blank [OF gen assms(3)] e by simp
  obtain t where t: "list_all printable (pv_Timestamp e)" "pv_Timestamp e \<noteq> []"
    "parseTime (pv_Timestamp e) = Inr t" and u: "unmarshal p = Inr (raw_of e)"
    using assms(2) m unfolding codec_ok_def e(3) by blast
  show ?thesis
    using id q t u
    by (auto simp: json_Decode_spec raw_of_def decoded_as_def to_valid_printable TrimSpace_printable)
qed

lemma producerLoop_sent:
  assumes "producerLoop env fl i sent w = (r, out, w')"
    and "\<And>w e p w'. sendOne env fl w = (StepSent e p, w') \<Longrightarrow> P e p"
    and "\<And>e p. (e, p) \<in> set sent \<Longrightarrow> P e p"
    and "(e, p) \<in> set out"
  shows "P e p"
  using assms(1,3)
proof (induction "nat (pf_count fl - i)" arbitrary: i sent w)
  case 0
  from 0(2) show ?case by (cases rule: producerLoop_cases) (use 0 assms(4) in auto)
next
  case (Suc n)
  from Suc.prems(1) show ?case
  proof (cases rule: producerLoop_cases)
    case (stopped e' p' w1 err w2)
    then show ?thesis using assms(2,4) Suc.prems(2) by auto
  next
    case (continues e' p' w1 w2)
    have "n = nat (pf_count fl - (i + 1))" using Suc.hyps(2) by linarith
    from Suc.hyps(1) [OF this continues(3)] show ?thesis
      using assms(2) [OF continues(2)] Suc.prems(2) by auto
  qed (use Suc.prems(2) assms(4) in auto)
qed

text \<open>
  C37: with accepted flags the producer never panics, writes at most \<open>count\<close> events, and has written exactly
  \<open>count\<close> events when it returns without an error and no sleep was interrupted; with rejected flags it
  returns their error and writes nothing.
\<close>

theorem producer_run_sends:
  assumes "producer_run env fl w = (r, sent, w')"
  shows "if checkFlags fl = None
    then r \<noteq> None \<and> int (length sent) \<le> pf_count fl \<and>
      (r = Some None \<and> (pf_interval fl \<le> 0 \<or> (\<forall>d w. fst (producer_sleep env d w) = None)) \<longrightarrow>
         int (length sent) = pf_count fl)
    else r = Some (checkFlags fl) \<and> sent = []"
proof (cases "checkFlags fl")
  case None
  then have "producerLoop env fl 0 [] w = (r, sent, w')" using assms by (simp add: producer_run_def)
  from producerLoop_count [OF this] show ?thesis using None by (simp add: checkFlags_valid)
qed (use assms in \<open>auto simp: producer_run_def\<close>)

text \<open>
  A concrete environment: a codec that marks the characters of a field and ends the field with a dot, and
  constant random sources.
\<close>

fun put_field :: "string \<Rightarrow> string" where
  "put_field [] = ''.''"
| "put_field (c # cs) = CHR ''+'' # c # put_field cs"

fun get_field :: "string \<Rightarrow> string \<times> string" where
  "get_field (m # c # cs) = (if m = CHR ''+'' then (let (f, r) = get_field cs in (c # f, r)) else ([], c # cs))"
| "get_field _ = ([], [])"

lemma get_put [simp]: "get_field (put_field f @ r) = (f, r)"
  by (induction f) (cases r, simp_all)

definition sample_marshal :: "producer_event \<Rightarrow> string" where
  "sample_marshal e = (let r = raw_of e in concat (map put_field
     [raw_EventID r, raw_Query r, raw_UserID r, raw_SessionID r, raw_IP r, raw_UserAgent r,
      raw_Timestamp r]))"

definition sample_unmarshal :: "string \<Rightarrow> go_error + raw_event" where
  "sample_unmarshal s0 =
     (let (a, s1) = get_field s0; (b, s2) = get_field s1; (c, s3) = get_field s2; (d, s4) = get_field s3;
          (e, s5) = get_field s4; (f, s6) = get_field s5; (g, s7) = get_field s6
      in Inr \<lparr>raw_EventID = a, raw_Query = b, raw_UserID = c, raw_SessionID = d, raw_IP = e,
              raw_UserAgent = f, raw_Timestamp = g\<rparr>)"

definition sample_penv :: "nat producer_env" where
  "sample_penv = \<lparr>pe_read = (\<lambda>w. (Inr (replicate 16 (CHR ''a'')), w + 1)), pe_Float64 = (\<lambda>w. (0, w)),
     pe_Intn = (\<lambda>n w. (0, w)), pe_stamp = (\<lambda>w. ''2026-01-02T03:04:05Z''), pe_marshal = (\<lambda>e. Inr (sample_marshal e)),
     pe_write = (\<lambda>k p w. (if w = 2 then Some (ErrNew ''broker'') else None, w)),
     pe_select = (\<lambda>d w. (None, w))\<rparr>"

definition sample_flags :: "int \<Rightarrow> producer_flags" where
  "sample_flags n = \<lparr>pf_brokers = ''a:1, b:2'', pf_topic = ''search-events'', pf_query = ''tea'', pf_userID = [],
     pf_sessionID = [], pf_ip = [], pf_userAgent = ''go'', pf_count = n, pf_interval = second,
     pf_queryPoolSize = 10, pf_users = 3, pf_botRatio = F64 0\<rparr>"

definition sample_parse :: "string \<Rightarrow> go_error + gotime" where
  "sample_parse s = (if s = ''2026-01-02T03:04:05Z'' then Inr (at_unix 1000) else Inl (ErrNew ''time''))"

lemma sample_codec: "codec_ok sample_penv sample_unmarshal sample_parse"
proof -
  have "\<exists>c r. put_field f = c # r" for f by (cases f) simp_all
  then have last_field [simp]: "get_field (put_field f) = (f, [])" for f
    using get_put [of f "[]"] by (simp del: get_put)
  show ?thesis
    by (auto simp: codec_ok_def sample_penv_def sample_marshal_def sample_unmarshal_def sample_parse_def
        printable_def raw_of_def Let_def)
qed

lemma f64_share: "f64 (4 / 5) = 3602879701896397 / 4503599627370496"
  by code_simp

text \<open>The event the constant sources give.\<close>

definition sample_sent :: producer_event where
  "sample_sent = \<lparr>pv_EventID = ''evt_61616161616161616161616161616161'', pv_Query = ''popular-query-000'',
     pv_UserID = ''user-00000'', pv_SessionID = ''session-00000'', pv_IP = ''10.0.0.0'', pv_UserAgent = ''go'',
     pv_Timestamp = ''2026-01-02T03:04:05Z''\<rparr>"

lemma sample_step:
  "sendOne sample_penv (sample_flags n) w =
     (if w = 1 then (StepError (ErrWrap ''write event'' (ErrNew ''broker'')), 2)
      else (StepSent sample_sent (sample_marshal sample_sent), w + 1))"
proof -
  have "fmt_pad 3 0 = ''000''" "fmt_pad 5 0 = ''00000''" "fmt_Sprint 0 = ''0''" by code_simp+
  moreover have "hex_EncodeToString (replicate 16 (CHR ''a'')) = ''61616161616161616161616161616161''" by code_simp
  ultimately show ?thesis
    by (simp add: sendOne_def newEventID_def generateEventInput_def weightedQuery_def rng_Intn_def Let_def
        sample_penv_def sample_flags_def f64_share sample_sent_def)
qed

lemma sample_flags_valid: "checkFlags (sample_flags 2) = None"
  by code_simp

lemma sample_fields [simp]:
  "pf_count (sample_flags n) = n" "pf_interval (sample_flags n) = second"
  "producer_sleep sample_penv d w = (None, w)"
  by (simp_all add: sample_flags_def sample_penv_def producer_sleep_def)

lemma sample_producer_run:
  "producer_run sample_penv (sample_flags 2) 0 =
     (Some (Some (ErrWrap ''write event'' (ErrNew ''broker''))), [(sample_sent, sample_marshal sample_sent)], 2)"
  "producer_run sample_penv (sample_flags 2) 2 =
     (Some None, replicate 2 (sample_sent, sample_marshal sample_sent), 4)"
  unfolding producer_run_def sample_flags_valid
  by (simp_all add: producerLoop.simps sample_step eval_nat_numeral)

theorem producer_run_sends_witness:
  "length (fst (snd (producer_run sample_penv (sample_flags 2) 2))) = 2"
  using producer_run_sends [OF sample_producer_run(2)] unfolding sample_producer_run(2)
  by (simp add: sample_flags_valid)

text \<open>
  C32: every event the producer writes is accepted by the decoder of the service: from the payload it decodes
  the event that was generated (its text coerced to valid UTF-8 and trimmed) with its timestamp, when the
  JSON codec and the time format round-trip as documented. So no event of the producer is counted as
  malformed or invalid, in pool mode and in single-query mode.
\<close>

theorem producer_events_decode:
  assumes "producer_run env fl w = (r, sent, w')" and "codec_ok env unmarshal parseTime"
    and "(event, payload) \<in> set sent"
  shows "\<exists>t. parseTime (pv_Timestamp event) = Inr t \<and>
    json_Decode unmarshal parseTime payload = Inr (decoded_as t event)"
proof (cases "checkFlags fl")
  case None
  then have loop: "producerLoop env fl 0 [] w = (r, sent, w')" using assms(1) by (simp add: producer_run_def)
  have q: "TrimSpace (pf_query fl) \<noteq> []" using None by (simp add: checkFlags_valid)
  show ?thesis
    by (rule producerLoop_sent [OF loop _ _ assms(3)]) (use sendOne_decodes [OF _ assms(2) q] in auto)
qed (use assms in \<open>auto simp: producer_run_def\<close>)

theorem producer_events_decode_witness:
  "json_Decode sample_unmarshal sample_parse (sample_marshal sample_sent) =
     Inr (decoded_as (at_unix 1000) sample_sent)"
  using producer_events_decode [OF sample_producer_run(1) sample_codec, of sample_sent "sample_marshal sample_sent"]
  by (auto simp: sample_sent_def sample_parse_def)

end
