(* ===== verification/Stoplist_Concurrent.thy ===== *)
theory Stoplist_Concurrent
  imports Stoplist
begin

text \<open>
  The steps inside \<open>Manager.Add\<close> and \<open>Manager.Remove\<close>, interleaved with readers that hold no lock. Maps
  live in a heap and are reached through addresses; \<open>atomic.Value\<close> holds the address of the published
  map. A writer takes the mutex, loads the address, checks it, allocates a map, copies the entries one by
  one, changes the copy and stores its address. A reader (\<open>Contains\<close>, \<open>List\<close>, \<open>Size\<close>) loads the address once
  and then reads the map behind it at its own pace. The mutex admits one writer at a time, so a single
  writer is in the state; the reader stands for any of them.
\<close>

section \<open>The steps\<close>

datatype writer =
    WIdle
  | WClone sl_op nat wordset   \<comment> \<open>the call, the address of the clone, the entries still to copy\<close>
  | WStore sl_op nat           \<comment> \<open>the call, the address of the finished map\<close>

record sl_sys =
  sys_heap :: "nat \<Rightarrow> wordset"
  sys_next :: nat
  sys_words :: nat
  sys_writer :: writer
  sys_reader :: "nat option"

fun op_word :: "sl_op \<Rightarrow> string" where
  "op_word (SlAdd w) = sl_normalize w"
| "op_word (SlRemove w) = sl_normalize w"

text \<open>The checks under the lock: the word is not empty, and absent for \<open>Add\<close>, present for \<open>Remove\<close>.\<close>

fun op_proceeds :: "sl_op \<Rightarrow> wordset \<Rightarrow> bool" where
  "op_proceeds (SlAdd w) current \<longleftrightarrow> sl_normalize w \<noteq> [] \<and> \<not> gm_has current (sl_normalize w)"
| "op_proceeds (SlRemove w) current \<longleftrightarrow> sl_normalize w \<noteq> [] \<and> gm_has current (sl_normalize w)"

fun op_change :: "sl_op \<Rightarrow> wordset \<Rightarrow> wordset" where
  "op_change (SlAdd w) clone = gm_put clone (sl_normalize w) ()"
| "op_change (SlRemove w) clone = gm_delete clone (sl_normalize w)"

inductive sys_step :: "sl_sys \<Rightarrow> sl_sys \<Rightarrow> bool" where
  begin_clone: "sys_writer s = WIdle \<Longrightarrow> op_proceeds op (sys_heap s (sys_words s)) \<Longrightarrow>
    sys_step s (s\<lparr>sys_heap := (sys_heap s)(sys_next s := []), sys_next := Suc (sys_next s),
      sys_writer := WClone op (sys_next s) (sys_heap s (sys_words s))\<rparr>)"
| return_false: "sys_writer s = WIdle \<Longrightarrow> \<not> op_proceeds op (sys_heap s (sys_words s)) \<Longrightarrow> sys_step s s"
| copy_entry: "sys_writer s = WClone op p ((word, u) # rest) \<Longrightarrow>
    sys_step s (s\<lparr>sys_heap := (sys_heap s)(p := gm_put (sys_heap s p) word ()),
      sys_writer := WClone op p rest\<rparr>)"
| change_copy: "sys_writer s = WClone op p [] \<Longrightarrow>
    sys_step s (s\<lparr>sys_heap := (sys_heap s)(p := op_change op (sys_heap s p)),
      sys_writer := WStore op p\<rparr>)"
| store: "sys_writer s = WStore op p \<Longrightarrow>
    sys_step s (s\<lparr>sys_words := p, sys_writer := WIdle\<rparr>)"
| reader_load: "sys_step s (s\<lparr>sys_reader := Some (sys_words s)\<rparr>)"
| reader_done: "sys_step s (s\<lparr>sys_reader := None\<rparr>)"

inductive_cases sys_stepE: "sys_step s s'"

definition sys_init :: "string list \<Rightarrow> sl_sys" where
  "sys_init initial = \<lparr>sys_heap = (\<lambda>_. [])(0 := buildSet initial), sys_next = 1, sys_words = 0,
     sys_writer = WIdle, sys_reader = None\<rparr>"

abbreviation sys_steps :: "sl_sys \<Rightarrow> sl_sys \<Rightarrow> bool" where
  "sys_steps \<equiv> sys_step\<^sup>*\<^sup>*"

section \<open>Published maps are never written\<close>

text \<open>An address that no writer may touch: allocated, and not the clone of the call in progress.\<close>

fun clone_addr :: "writer \<Rightarrow> nat option" where
  "clone_addr WIdle = None"
| "clone_addr (WClone op p rest) = Some p"
| "clone_addr (WStore op p) = Some p"

definition frozen :: "nat \<Rightarrow> sl_sys \<Rightarrow> bool" where
  "frozen p s \<longleftrightarrow> p < sys_next s \<and> clone_addr (sys_writer s) \<noteq> Some p"

lemma frozen_step:
  assumes "sys_step s s'" and "frozen p s"
  shows "frozen p s' \<and> sys_heap s' p = sys_heap s p"
  using assms by cases (auto simp: frozen_def)

lemma frozen_steps: "sys_steps s s' \<Longrightarrow> frozen p s \<Longrightarrow> frozen p s' \<and> sys_heap s' p = sys_heap s p"
  by (induction rule: rtranclp_induct) (auto dest: frozen_step)

text \<open>
  The invariant: the published map and the map of the reader are frozen, and the clone under
  construction has all entries of the published map that are not still to be copied.
\<close>

definition copy_ok :: "sl_sys \<Rightarrow> bool" where
  "copy_ok s \<longleftrightarrow> (case sys_writer s of
     WIdle \<Rightarrow> True
   | WClone op p rest \<Rightarrow> p < sys_next s \<and> op_proceeds op (sys_heap s (sys_words s)) \<and>
       gm_wf (sys_heap s p) \<and> gm_keys (sys_heap s p) \<union> gm_keys rest = gm_keys (sys_heap s (sys_words s))
   | WStore op p \<Rightarrow> p < sys_next s \<and> op_proceeds op (sys_heap s (sys_words s)) \<and>
       gm_wf (sys_heap s p) \<and>
       gm_keys (sys_heap s p) = gm_keys (op_change op (sys_heap s (sys_words s))))"

definition sys_inv :: "sl_sys \<Rightarrow> bool" where
  "sys_inv s \<longleftrightarrow> frozen (sys_words s) s \<and> (\<forall>p. sys_reader s = Some p \<longrightarrow> frozen p s) \<and>
     wordset_ok (sys_heap s (sys_words s)) \<and> copy_ok s"

lemma op_change_keys:
  "gm_keys (op_change op m) = set_step (gm_keys m) op \<or> op_word op = []"
  by (cases op) (auto simp: gomap_simps)

lemma op_change_cong: "gm_keys m = gm_keys m' \<Longrightarrow> gm_keys (op_change op m) = gm_keys (op_change op m')"
  by (cases op) (auto simp: gomap_simps)

lemma op_change_ok:
  assumes "wordset_ok m" and "op_proceeds op m" and "gm_wf m'"
    and "gm_keys m' = gm_keys (op_change op m)"
  shows "wordset_ok m'"
  using assms by (cases op) (auto simp: wordset_ok_def gomap_simps)

lemma copy_ok_step:
  assumes "sys_step s s'" and "sys_inv s"
  shows "copy_ok s'"
  using assms(1)
proof cases
  case (begin_clone op)
  then show ?thesis using assms(2) by (auto simp: copy_ok_def sys_inv_def frozen_def)
next
  case (copy_entry op p word u rest)
  then show ?thesis
    using assms(2) by (auto simp: copy_ok_def sys_inv_def frozen_def gomap_simps gm_keys_Cons)
next
  case (change_copy op p)
  then have "gm_keys (op_change op (sys_heap s p)) = gm_keys (op_change op (sys_heap s (sys_words s)))"
    using assms(2) by (intro op_change_cong) (auto simp: copy_ok_def sys_inv_def)
  moreover have "gm_wf (op_change op (sys_heap s p))"
    using change_copy assms(2) by (cases op) (auto simp: copy_ok_def sys_inv_def)
  ultimately show ?thesis
    using change_copy assms(2) by (auto simp: copy_ok_def sys_inv_def frozen_def)
qed (use assms(2) in \<open>auto simp: copy_ok_def sys_inv_def split: writer.splits\<close>)

lemma sys_inv_step:
  assumes st: "sys_step s s'" and inv: "sys_inv s"
  shows "sys_inv s'"
proof -
  have fr: "frozen (sys_words s) s" "\<forall>p. sys_reader s = Some p \<longrightarrow> frozen p s"
      "wordset_ok (sys_heap s (sys_words s))" using inv by (auto simp: sys_inv_def)
  have "frozen (sys_words s') s' \<and> wordset_ok (sys_heap s' (sys_words s'))"
    using st
  proof cases
    case (store op p)
    then have p: "p < sys_next s" "op_proceeds op (sys_heap s (sys_words s))" "gm_wf (sys_heap s p)"
        "gm_keys (sys_heap s p) = gm_keys (op_change op (sys_heap s (sys_words s)))"
      using inv by (auto simp: sys_inv_def copy_ok_def)
    then show ?thesis using store op_change_ok [OF fr(3) p(2-4)] by (simp add: frozen_def)
  qed (use fr frozen_step [OF st] in auto)
  moreover have "\<forall>p. sys_reader s' = Some p \<longrightarrow> frozen p s'"
    using st by cases (use fr frozen_step [OF st] in auto)
  ultimately show ?thesis using copy_ok_step [OF assms] by (simp add: sys_inv_def)
qed

lemma sys_inv_init: "sys_inv (sys_init initial)"
  using sl_NewManager_ok(1) [of initial]
  by (simp add: sys_inv_def sys_init_def frozen_def copy_ok_def sl_inv_def sl_NewManager_def sl_load_def)

lemma sys_inv_steps: "sys_steps s s' \<Longrightarrow> sys_inv s \<Longrightarrow> sys_inv s'"
  by (induction rule: rtranclp_induct) (auto intro: sys_inv_step)

text \<open>
  C12: readers need no lock. In every interleaving of the steps of writers and readers, a reader that has
  loaded the published map sees exactly that map until it is done, however many \<open>Add\<close> and \<open>Remove\<close> calls
  run to completion, or stop half way, in the meantime: no step writes to a map that was published.
\<close>

theorem stoplist_reader_snapshot:
  assumes "sys_steps (sys_init initial) s" and "sys_reader s = Some p" and "sys_steps s s'"
  shows "sys_heap s' p = sys_heap s p \<and> sys_heap s' (sys_words s) = sys_heap s (sys_words s)"
proof -
  have "sys_inv s" using sys_inv_steps [OF assms(1) sys_inv_init] .
  then show ?thesis using frozen_steps [OF assms(3)] assms(2) by (auto simp: sys_inv_def)
qed

theorem stoplist_reader_snapshot_witness:
  "sys_steps (sys_init []) ((sys_init [])\<lparr>sys_reader := Some 0\<rparr>) \<and>
   sys_heap ((sys_init [])\<lparr>sys_reader := None\<rparr>) 0 = sys_heap ((sys_init [])\<lparr>sys_reader := Some 0\<rparr>) 0"
proof -
  let ?s = "(sys_init [])\<lparr>sys_reader := Some 0\<rparr>"
  have a: "sys_steps (sys_init []) ?s"
    using reader_load [of "sys_init []"] by (simp add: sys_init_def r_into_rtranclp)
  have b: "sys_steps ?s ((sys_init [])\<lparr>sys_reader := None\<rparr>)"
    using reader_done [of ?s] by (simp add: sys_init_def r_into_rtranclp)
  show ?thesis using stoplist_reader_snapshot [OF a _ b] a by simp
qed


text \<open>The states in which \<open>Add "a"\<close> on an empty list stores its copy, and after it.\<close>

definition storing_a :: sl_sys where
  "storing_a = \<lparr>sys_heap = (\<lambda>_. [])(0 := [], 1 := [(''a'', ())]), sys_next = 2, sys_words = 0,
     sys_writer = WStore (SlAdd ''a'') 1, sys_reader = None\<rparr>"

lemma storing_a_reachable: "sys_steps (sys_init []) storing_a"
proof -
  let ?s = "\<lparr>sys_heap = (\<lambda>_. [])(0 := [], 1 := []), sys_next = 2, sys_words = 0,
    sys_writer = WClone (SlAdd ''a'') 1 [], sys_reader = None\<rparr>"
  have n: "sl_normalize ''a'' = ''a''" by code_simp
  have "sys_step (sys_init []) ?s"
    using begin_clone [of "sys_init []" "SlAdd ''a''"] n
    by (simp add: sys_init_def buildSet_def gm_has_def numeral_2_eq_2)
  moreover have "sys_step ?s storing_a"
    using change_copy [of ?s "SlAdd ''a''" 1] n by (simp add: storing_a_def gm_put_def fun_upd_def)
  ultimately show ?thesis by (meson rtranclp.rtrancl_into_rtrancl rtranclp.rtrancl_refl)
qed


end
