(* ===== verification/Spec2Isabelle.thy ===== *)
theory Spec2Isabelle
  imports Service_Samples Producer Stoplist_Concurrent
begin

text \<open>
  A verification development of the search-trends service, a Go program that reads search events from
  Kafka, counts the normalised queries of a sliding window in memory, and answers "the most frequent
  queries" over gRPC from a cached list.

  \<^bold>\<open>The program.\<close> \<open>cmd/app/main.go\<close> loads the configuration, builds the components and starts four
  goroutines. The Kafka consumer (\<open>internal/kafka\<close>) fetches a message, decodes it, calls the handler of
  \<open>main.go\<close> and commits the offset. The handler asks the stop list (\<open>internal/stoplist\<close>) and the anti-spam
  limiter (\<open>internal/antispam\<close>), then adds the event to the aggregator (\<open>internal/aggregator\<close>), a ring of
  one-second buckets with global counters. A ticker rebuilds the cached Top-N. The gRPC server
  (\<open>internal/server\<close>) reads the cache and administers the stop list, and a second HTTP server exposes the
  Prometheus metrics (\<open>internal/metrics\<close>). \<open>cmd/producer\<close> is a load generator for the topic.

  \<^bold>\<open>The theories\<close>, in the order of their imports:

  \<^item> \<open>Go_Prelude\<close>: 64-bit wrap-around, truncating division, times and durations, error values with
    \<open>errors.Is\<close>, contexts, maps, and the locales \<open>run_invariant\<close> and \<open>run_refinement\<close> for sequences of
    atomic operations. \<open>Go_Unicode\<close> and \<open>Go_Strings\<close>: UTF-8 decoding and encoding, the rune classes,
    \<open>TrimSpace\<close>. \<open>Go_Heap\<close>: \<open>container/heap\<close> for a strict order. \<open>Go_Float\<close>: the \<open>float64\<close> arithmetic of
    \<open>Duration.Seconds\<close>. \<open>Go_Fmt\<close>: \<open>%d\<close>, \<open>%0nd\<close>, hexadecimal text, splitting at commas.
  \<^item> \<open>Normalizer\<close> (\<open>normalizer.go\<close>): the loop of \<open>NormalizeQuery\<close> equals a reference normaliser on words.
  \<^item> \<open>Top_Items\<close> (\<open>buildTop\<close>, \<open>isBetter\<close> and the heap of \<open>aggregator.go\<close>): the bounded heap selects exactly
    what sorting all positive counters and taking the first ones selects.
  \<^item> \<open>Metric_Calls\<close>: the calls that components make on their metrics. An operation returns the calls it makes.
  \<^item> \<open>Aggregator\<close> (\<open>aggregator.go\<close>, \<open>types.go\<close>): the record \<open>aggregator\<close> is \<open>InMemoryAggregator\<close>; the maps are
    association lists in the order in which the runtime iterates them, the clock and the context are
    arguments. \<open>Aggregator_Inv\<close>: the invariant of every reachable state. \<open>Aggregator_Window\<close>: refinement of a
    multiset of (second, query) pairs. \<open>Aggregator_Exact\<close>: when the Top-N is exact, and two inputs for which
    it is not.
  \<^item> \<open>Stoplist\<close> (\<open>stoplist.go\<close>): the manager implements the locale \<open>stop_words\<close>, a set of normal forms.
    \<open>Stoplist_Concurrent\<close>: the same methods as steps on a heap of maps, with writers under the mutex and
    lock-free readers; each call takes effect at its store and a reader's map never changes.
  \<^item> \<open>Antispam\<close> (\<open>limiter.go\<close>), \<open>Config\<close> (\<open>config.go\<close>).
  \<^item> \<open>Kafka_Decoder\<close> (\<open>decoder.go\<close>, \<open>event.go\<close>), \<open>Kafka_Consumer\<close> (\<open>consumer.go\<close>) and \<open>Kafka_Safety\<close>: the
    consumer acts on an environment and returns the list of its actions; a monitor over the actions shows
    that offsets are committed only after processing, that retries are bounded, and that the counters
    balance.
  \<^item> \<open>Server\<close> (\<open>search_trends.go\<close>, \<open>interceptors.go\<close>, \<open>grpc.go\<close>, \<open>metrics.go\<close> of \<open>internal/server\<close>): the
    handlers over the locales \<open>top_provider\<close> and \<open>admin_words\<close>, interpreted on the aggregator and the manager.
  \<^item> \<open>Metrics\<close> (\<open>internal/metrics/metrics.go\<close>): registration on a registry and what each method does to its
    collectors.
  \<^item> \<open>App\<close> (\<open>cmd/app/main.go\<close>): the handler, and the construction of all components with the logger and the
    metrics. \<open>Service\<close>: the steps of the goroutines on the shared state. \<open>Service_Trace\<close>: what these steps ask of
    the aggregator, which lifts its properties to the service. \<open>Lifecycle\<close>: how the goroutines, the servers and
    the group that joins them start, fail and stop. \<open>Service_Samples\<close>: a concrete service for the witnesses.
  \<^item> \<open>Producer\<close> (\<open>cmd/producer/main.go\<close>).
  \<^item> this theory: the properties of the whole service.

  \<^bold>\<open>What is shown.\<close> The counters are the sums of the buckets and the cache is the Top-N of the counters in
  every reachable state; the ring refines the window, and under a clock that does not go back and events
  that are not from the future the answer is exactly the Top-N of the accepted events of the window. The
  consumer never commits an unprocessed message and never goes on past an uncommitted one; its loop ends when the
  context does, and an error means that all attempts to commit one message failed. A listed stop word never reaches an
  answer, whatever the interleaving. The gRPC answers are the cached items, none dropped, no count wrapped, and
  also for the running service they are exact. The process exits with 0 only after a signal, and a shutdown
  completes within eight steps of the goroutines.
  Metric methods cannot panic and use primed labels only. The producer's events are accepted by the decoder.
  Some theorems show inputs on which the program does not do what its documentation says: two seconds that
  share a slot, buckets wider than a second, a tab in a stop word, rejected events that are counted as
  processed, metrics paths that panic, a timeout that stops the consumer alone.

  \<^bold>\<open>Bounds and fuel.\<close> \<open>consumer_Run\<close> takes fuel, the number of iterations; every statement on the actions of
  the consumer holds for every fuel, and that it returns after a shutdown is shown with an explicit fuel.
  \<open>agg_Run\<close> recurses on the events its select statement receives. All other loops are total functions with
  their termination proofs. Counts are bounded by the number of calls, which is assumed to be at most
  \<open>2 ^ 63 - 1\<close> where a counter must not wrap.

  \<^bold>\<open>Not modelled.\<close> The generated protobuf code and the libraries (the Kafka client, gRPC, \<open>net/http\<close>, YAML, JSON,
  Prometheus, zap, errgroup) are arguments of the definitions, with what they document as named hypotheses
  where a theorem needs it (\<open>registry_ok\<close>, \<open>libs_ok\<close>, \<open>codec_ok\<close>, \<open>errgroup_ok\<close>, \<open>fetch_obeys\<close>, \<open>select_ok\<close>,
  \<open>poll_ok\<close>). Log lines, \<open>flag.Parse\<close>, the deferred calls that close the reader and the writer, and the health
  and reflection services of the gRPC server are left out: they call libraries and change no state of the
  program. The Go memory model is not modelled below the level of mutexes and atomic pointers.
\<close>

section \<open>Properties of the whole service\<close>

text \<open>
  C7: a stop word is never shown. Let the service start with \<open>q\<close> on its stop list, and let its goroutines take
  any steps in any order: events arriving, being counted later while the stop list changes, rebuilds of the
  top, and gRPC requests, none of which asks to remove \<open>q\<close>. If the raw queries contain no white space that is
  a control character, no answer to \<open>GetTop\<close> ever contains \<open>q\<close>, however the queries were written.
\<close>

theorem stop_word_never_shown:
  assumes "app_start lib loaded now = Inr app"
    and "q \<in> set (sl_List (app_stopWords (app_init app)))"
    and "service_run (initial_service app) ops s" and "list_all (keeps q) ops"
    and "srv_GetTop (agg_Snapshot (app_agg (svc_state s))) c req = Inr resp"
  shows "q \<notin> fst ` set (gr_Items resp)"
proof -
  have "hides q s"
    using service_run_hides [OF assms(3) initial_hides [OF assms(1,2)] assms(4)] .
  then show ?thesis using GetTop_absent [OF _ assms(5)] by (simp add: hides_def)
qed

theorem stop_word_never_shown_witness:
  "\<exists>app s resp. app_start sample_libs (Inr spam_config_file) 0 = Inr app \<and>
     service_run (initial_service app) [EventArrives spam_arrival] s \<and>
     srv_GetTop (agg_Snapshot (app_agg (svc_state s))) None None = Inr resp \<and>
     ''spam'' \<notin> fst ` set (gr_Items resp)"
proof -
  obtain app where app: "app_start sample_libs (Inr spam_config_file) 0 = Inr app"
    and w: "app_stopWords (app_init app) = sl_NewManager ['' Spam'']"
    and st: "service_step (initial_service app) (EventArrives spam_arrival) [ObserveEvent ''stopped'']
      (initial_service app)"
    by (rule spam_service)
  have run: "service_run (initial_service app) [EventArrives spam_arrival] (initial_service app)"
    using run_step [OF run_start st] by simp
  obtain resp where r: "srv_GetTop (agg_Snapshot (app_agg (svc_state (initial_service app)))) None None = Inr resp"
    by (auto simp: srv_GetTop_def agg_Snapshot_def agg_GetTop_def Let_def)
  have l: "''spam'' \<in> set (sl_List (app_stopWords (app_init app)))" unfolding w by code_simp
  have k: "list_all (keeps ''spam'') [EventArrives spam_arrival]"
  proof -
    have "plain_query ''SPAM''" by code_simp
    then show ?thesis by (simp add: spam_arrival_def)
  qed
  show ?thesis using stop_word_never_shown [OF app l run k r] app run r by blast
qed

text \<open>
  C39: the labels that the components use are the ones that are primed. Every labelled counter that the start
  of the service, a step of its goroutines or the Kafka consumer increments has a series that
  \<open>primeLabels\<close> has created, the gRPC requests apart, so that the dashboards see every series from the start
  and no status is misspelt.
\<close>

theorem service_series_primed:
  "(app_start lib loaded now = Inr app \<longrightarrow> list_all (series_primed m) (app_calls app)) \<and>
   (service_step s op ms s' \<longrightarrow> list_all (series_primed m) ms) \<and>
   list_all (action_primed m) (snd (snd (consumer_Run fuel env con w)))"
  by (intro conjI impI app_start_primed service_step_primed consumer_Run_primed)

theorem service_series_primed_witness:
  "\<exists>app. app_start sample_libs (Inr spam_config_file) 0 = Inr app \<and>
     list_all (series_primed sample_metric_set) (app_calls app) \<and>
     service_step (initial_service app) (EventArrives spam_arrival) [ObserveEvent ''stopped'']
       (initial_service app) \<and>
     list_all (series_primed sample_metric_set) [ObserveEvent ''stopped''] \<and>
     list_all (action_primed sample_metric_set) (snd (snd (consumer_Run 2 sample_env sample_consumer 0)))"
proof -
  obtain app where app: "app_start sample_libs (Inr spam_config_file) 0 = Inr app"
    and st: "service_step (initial_service app) (EventArrives spam_arrival) [ObserveEvent ''stopped'']
      (initial_service app)"
    by (rule spam_service)
  show ?thesis
    using service_series_primed [of sample_libs "Inr spam_config_file" 0 app sample_metric_set "initial_service app"
        "EventArrives spam_arrival" "[ObserveEvent ''stopped'']" "initial_service app" 2 sample_env
        sample_consumer 0] app st by blast
qed



text \<open>
  C18: the process ends with exit code 0 only after a signal. For every run of the four goroutines to its end,
  whatever the Kafka client, the listeners and the servers do: if \<open>main\<close> exits with 0 then SIGINT or SIGTERM
  arrived and every goroutine returned nil; and if \<open>run\<close> returns an error then it is the wrapped error that
  one of the goroutines returned.
\<close>

theorem exit_zero_needs_signal:
  assumes "app_start lib loaded now = Inr app" and "errgroup_ok (le_group E)"
    and "eg_Context (le_group E) g = None" and "eg_Wait (le_group E) g = None"
    and "life_run E app (life_init app g x) ops s" and "finished s"
  defines "result \<equiv> app_run lib loaded now (\<lambda>_. eg_Wait (le_group E) (lf_group s))"
  shows "(app_main result = 0 \<longrightarrow> LifeSignal \<in> set ops \<and> phases s = replicate 4 (Returned None)) \<and>
    (\<forall>e. result = Some e \<longrightarrow>
       (\<exists>err. e = ErrWrap ''service stopped with error'' err \<and> Returned (Some err) \<in> set (phases s)))"
proof -
  have inv: "life_inv E (LifeSignal \<in> set ops) s"
    using life_run_inv [OF assms(5,2) life_init_inv [OF assms(3,4)]] by simp
  have r: "result = (case eg_Wait (le_group E) (lf_group s) of
      Some err \<Rightarrow> Some (ErrWrap ''service stopped with error'' err) | None \<Rightarrow> None)"
    using assms(1) by (simp add: result_def app_run_def)
  show ?thesis
  proof (cases "eg_Wait (le_group E) (lf_group s)")
    case None
    have "p = Returned None" if p: "p \<in> set (phases s)" for p
    proof -
      have "is_returned p" using p assms(6) by (simp add: finished_def list_all_iff)
      then obtain r where "p = Returned r" by (cases p) simp_all
      then show ?thesis using p inv None by (cases r) (auto simp: life_inv_def)
    qed
    then have "phases s = replicate 4 (Returned None)"
      using replicate_eqI [of "phases s" 4] by (simp add: phases_def)
    then show ?thesis using inv None r by (auto simp: life_inv_def phases_def eval_nat_numeral)
  next
    case (Some err)
    then show ?thesis using inv r by (auto simp: life_inv_def app_main_def)
  qed
qed

theorem exit_zero_needs_signal_witness:
  "\<exists>app ops s. life_run sample_life_env app (life_init app (False, None) 0) ops s \<and> finished s \<and>
     app_main (app_run sample_libs (Inr spam_config_file) 0 (\<lambda>_. snd (lf_group s))) = 0 \<and>
     LifeSignal \<in> set ops \<and> phases s = replicate 4 (Returned None)"
proof -
  obtain app where app: "app_start sample_libs (Inr spam_config_file) 0 = Inr app" by (rule spam_service)
  obtain ops s where r: "life_run sample_life_env app (life_init app (False, None) 0) (LifeSignal # ops) s"
    "lf_group s = (True, None)" "finished s" using sample_shutdown(2) [OF app] by blast
  have w: "eg_Wait (le_group sample_life_env) = snd" by (simp add: sample_group_def)
  have z: "app_main (app_run sample_libs (Inr spam_config_file) 0 (\<lambda>_. snd (lf_group s))) = 0"
    using app r(2) by (simp add: app_run_def app_main_def)
  have "eg_Context (le_group sample_life_env) (False, None) = None" "eg_Wait (le_group sample_life_env) (False, None) = None"
    by (simp_all add: sample_group_def)
  from exit_zero_needs_signal [OF app _ this r(1,3)] z sample_group_ok
  have "LifeSignal \<in> set (LifeSignal # ops) \<and> phases s = replicate 4 (Returned None)" unfolding w by simp
  then show ?thesis using r(1,3) z by blast
qed



text \<open>
  C24: the consumer can stop while the service goes on. \<open>Run\<close> of the consumer takes every error that is
  \<open>context.DeadlineExceeded\<close> for the end of its own context: if the reader reports such an error, for example
  a connection attempt that timed out, while the context is live, then the consumer returns nil. The group is
  not cancelled by that, and until a signal arrives or a server fails the process does not end, no event is
  added any more, and the top is only rebuilt from what is left in the window.
\<close>

theorem consumer_silent_stop:
  assumes "errgroup_ok (le_group E)" and "lf_consumer s = Running" and "lf_agg s = Running" and "lf_ctx E s = None"
    and "env_fetch (le_kafka E None) (lf_world s) = (Inl err, w)" and "errors_Is err DeadlineExceeded"
  shows "\<exists>s'. life_step E app s LifeConsumer s' \<and>
    (\<forall>ops s''. life_run E app s' ops s'' \<and> list_all quiet ops \<longrightarrow>
       lf_consumer s'' = Returned None \<and> lf_ctx E s'' = None \<and> \<not> finished s'' \<and>
       (\<exists>ticks. app_agg (fst (lf_world s'')) =
          foldl agg_step (app_agg (fst w)) (map (\<lambda>(now, d). OpRebuild None now d) ticks)))"
proof -
  obtain s' where s': "life_step E app s LifeConsumer s'" "silent E (app_agg (fst w)) s'"
    using consumer_stops_silently [OF assms] by blast
  have "silent E (app_agg (fst w)) s''" if "life_run E app s' ops s''" "list_all quiet ops" for ops s''
    using life_run_silent [OF that(1) assms(1) s'(2) that(2)] .
  then show ?thesis using s'(1) silent_not_finished unfolding silent_def by blast
qed

theorem consumer_silent_stop_witness:
  "\<exists>app s'. life_step sample_life_env app (life_init app (False, None) 0) LifeConsumer s' \<and>
     lf_consumer s' = Returned None \<and> \<not> finished s'"
proof -
  obtain app where app: "app_start sample_libs (Inr spam_config_file) 0 = Inr app" by (rule spam_service)
  let ?i = "life_init app (False, None) 0 :: (bool \<times> go_error option, int) life"
  have "errgroup_ok (le_group sample_life_env)" "lf_consumer ?i = Running" "lf_agg ?i = Running"
    "lf_ctx sample_life_env ?i = None"
    "env_fetch (le_kafka sample_life_env None) (lf_world ?i) =
       (Inl (ErrWrap ''dial tcp'' DeadlineExceeded), (app_init app, 0))"
    "errors_Is (ErrWrap ''dial tcp'' DeadlineExceeded) DeadlineExceeded"
    using sample_group_ok by (simp_all add: life_init_def sample_life_env_def) (simp add: sample_group_def)
  from consumer_silent_stop [OF this, of app] life_start show ?thesis by fastforce
qed

end
